theory Spec2Isabelle
  imports Complex_Main
begin

section \<open>JavaScript numbers\<close>

text \<open>
  The program computes with JavaScript numbers and stores most of them in
  \<^verbatim>\<open>Float32Array\<close>s. A number is modelled as a real or one of the three special values
  of IEEE arithmetic; zero carries no sign (every zero behaves as \<open>+0\<close>). The special
  values follow the language: \<open>NaN\<close> propagates through arithmetic, every comparison with
  \<open>NaN\<close> is false.

  The operations \<open>js_add\<close>, \<open>js_sub\<close>, \<open>js_mul\<close> and \<open>js_div\<close> are exact. The
  operations of the language round their exact result to double precision: these are
  \<open>add64\<close>, \<open>sub64\<close>, \<open>mul64\<close> and \<open>div64\<close> below, and a store in a
  \<^verbatim>\<open>Float32Array\<close> rounds to single precision (\<open>fround\<close>). The network, whose claims
  are about the values it computes, is modelled with the rounding operations: its
  constructor and its forward pass. The colours, the class probabilities and the drawing grid
  are modelled with the exact operations, \<^verbatim>\<open>Math.exp\<close> with its underflow and its overflow.
\<close>

datatype jsnum = Num real | PosInf | NegInf | NaN

fun js_isFinite :: "jsnum \<Rightarrow> bool" where
  "js_isFinite (Num x) = True"
| "js_isFinite _ = False"

fun js_neg :: "jsnum \<Rightarrow> jsnum" where
  "js_neg (Num x) = Num (- x)"
| "js_neg PosInf = NegInf"
| "js_neg NegInf = PosInf"
| "js_neg NaN = NaN"

fun js_add :: "jsnum \<Rightarrow> jsnum \<Rightarrow> jsnum" where
  "js_add (Num x) (Num y) = Num (x + y)"
| "js_add NaN b = NaN"
| "js_add a NaN = NaN"
| "js_add PosInf NegInf = NaN"
| "js_add NegInf PosInf = NaN"
| "js_add PosInf b = PosInf"
| "js_add NegInf b = NegInf"
| "js_add (Num x) b = b"

definition js_sub :: "jsnum \<Rightarrow> jsnum \<Rightarrow> jsnum" where
  "js_sub a b = js_add a (js_neg b)"

fun js_mul :: "jsnum \<Rightarrow> jsnum \<Rightarrow> jsnum" where
  "js_mul (Num x) (Num y) = Num (x * y)"
| "js_mul NaN b = NaN"
| "js_mul a NaN = NaN"
| "js_mul (Num x) b = (if x = 0 then NaN else if 0 < x then b else js_neg b)"
| "js_mul a (Num y) = (if y = 0 then NaN else if 0 < y then a else js_neg a)"
| "js_mul PosInf b = b"
| "js_mul NegInf b = js_neg b"

fun js_div :: "jsnum \<Rightarrow> jsnum \<Rightarrow> jsnum" where
  "js_div (Num x) (Num y) =
     (if y = 0 then (if x = 0 then NaN else if 0 < x then PosInf else NegInf)
      else Num (x / y))"
| "js_div NaN b = NaN"
| "js_div a NaN = NaN"
| "js_div (Num x) b = Num 0"
| "js_div a (Num y) = (if 0 \<le> y then a else js_neg a)"
| "js_div a b = NaN"

fun js_abs :: "jsnum \<Rightarrow> jsnum" where
  "js_abs (Num x) = Num \<bar>x\<bar>"
| "js_abs PosInf = PosInf"
| "js_abs NegInf = PosInf"
| "js_abs NaN = NaN"

text \<open>\<open>js_lt a b\<close> is \<^verbatim>\<open>a < b\<close>, \<open>js_eq a b\<close> is \<^verbatim>\<open>a === b\<close>.\<close>

fun js_lt :: "jsnum \<Rightarrow> jsnum \<Rightarrow> bool" where
  "js_lt (Num x) (Num y) = (x < y)"
| "js_lt NaN b = False"
| "js_lt a NaN = False"
| "js_lt PosInf b = False"
| "js_lt a NegInf = False"
| "js_lt a b = True"

definition js_gt :: "jsnum \<Rightarrow> jsnum \<Rightarrow> bool" where
  "js_gt a b = js_lt b a"

fun js_eq :: "jsnum \<Rightarrow> jsnum \<Rightarrow> bool" where
  "js_eq NaN b = False"
| "js_eq a NaN = False"
| "js_eq a b = (a = b)"

definition js_ge :: "jsnum \<Rightarrow> jsnum \<Rightarrow> bool" where
  "js_ge a b = (js_gt a b \<or> js_eq a b)"

text \<open>Truthiness of a number, as \<^verbatim>\<open>||\<close> tests it: \<open>0\<close> and \<open>NaN\<close> are falsy.\<close>

fun js_truthy :: "jsnum \<Rightarrow> bool" where
  "js_truthy (Num x) = (x \<noteq> 0)"
| "js_truthy NaN = False"
| "js_truthy _ = True"

text \<open>\<^verbatim>\<open>Math.max(a, b)\<close> and \<^verbatim>\<open>Math.min(a, b)\<close>: \<open>NaN\<close> if either argument is.\<close>

fun js_max2 :: "jsnum \<Rightarrow> jsnum \<Rightarrow> jsnum" where
  "js_max2 NaN b = NaN"
| "js_max2 a NaN = NaN"
| "js_max2 a b = (if js_lt a b then b else a)"

fun js_min2 :: "jsnum \<Rightarrow> jsnum \<Rightarrow> jsnum" where
  "js_min2 NaN b = NaN"
| "js_min2 a NaN = NaN"
| "js_min2 a b = (if js_lt b a then b else a)"

text \<open>\<^verbatim>\<open>Math.max(...values)\<close>: the maximum of no argument is \<open>-Infinity\<close>.\<close>

definition js_Math_max :: "jsnum list \<Rightarrow> jsnum" where
  "js_Math_max values = foldl js_max2 NegInf values"

subsection \<open>Rounding to a binary format\<close>

text \<open>
  \<open>round_binary p emin x\<close> is the number with \<open>p\<close> significant bits and an exponent of
  at least \<open>emin\<close> that is nearest to \<open>x\<close>, ties going to the even significand:
  \<open>x\<close> is measured in units of its last place and rounded to an integer. \<open>to_binary\<close>
  adds the overflow to an infinity. \<open>dround\<close> is the rounding of an exact result to double
  precision, \<open>fround\<close> that of a store in a \<^verbatim>\<open>Float32Array\<close>
  (\<^verbatim>\<open>Math.fround\<close>).
\<close>

definition pow2 :: "int \<Rightarrow> real" where
  "pow2 k = (if 0 \<le> k then 2 ^ nat k else 1 / 2 ^ nat (- k))"

definition round_even :: "real \<Rightarrow> int" where
  "round_even y =
     (let f = \<lfloor>y\<rfloor>
      in if y - of_int f < 1 / 2 then f
         else if 1 / 2 < y - of_int f then f + 1
         else if even f then f else f + 1)"

definition round_binary :: "nat \<Rightarrow> int \<Rightarrow> real \<Rightarrow> real" where
  "round_binary p emin x =
     (if x = 0 then 0
      else (let e = max \<lfloor>log 2 \<bar>x\<bar>\<rfloor> emin;
                u = pow2 (e - (int p - 1))
            in of_int (round_even (x / u)) * u))"

definition to_binary :: "nat \<Rightarrow> int \<Rightarrow> int \<Rightarrow> jsnum \<Rightarrow> jsnum" where
  "to_binary p emin emax v =
     (case v of
        Num x \<Rightarrow>
          (let r = round_binary p emin x
           in if pow2 (emax + 1) \<le> \<bar>r\<bar> then (if 0 < x then PosInf else NegInf) else Num r)
      | _ \<Rightarrow> v)"

definition dround :: "jsnum \<Rightarrow> jsnum" where
  "dround = to_binary 53 (- 1022) 1023"

definition fround :: "jsnum \<Rightarrow> jsnum" where
  "fround = to_binary 24 (- 126) 127"

text \<open>The arithmetic operators of the language, on doubles.\<close>

definition add64 :: "jsnum \<Rightarrow> jsnum \<Rightarrow> jsnum" where
  "add64 a b = dround (js_add a b)"

definition sub64 :: "jsnum \<Rightarrow> jsnum \<Rightarrow> jsnum" where
  "sub64 a b = dround (js_sub a b)"

definition mul64 :: "jsnum \<Rightarrow> jsnum \<Rightarrow> jsnum" where
  "mul64 a b = dround (js_mul a b)"

definition div64 :: "jsnum \<Rightarrow> jsnum \<Rightarrow> jsnum" where
  "div64 a b = dround (js_div a b)"

text \<open>
  \<^verbatim>\<open>Math.exp\<close>: the result underflows to \<open>0\<close> below half the least positive double
  and overflows to \<open>Infinity\<close> from \<open>2\<^sup>1\<^sup>0\<^sup>2\<^sup>4\<close> on; between the two it is kept exact.
\<close>

fun js_exp :: "jsnum \<Rightarrow> jsnum" where
  "js_exp (Num x) =
     (if exp x < pow2 (- 1075) then Num 0
      else if pow2 1024 \<le> exp x then PosInf
      else Num (exp x))"
| "js_exp PosInf = PosInf"
| "js_exp NegInf = Num 0"
| "js_exp NaN = NaN"

text \<open>
  Reading an array: \<open>js_get xs i\<close> is \<^verbatim>\<open>xs[i]\<close>, \<open>None\<close> standing for
  \<^verbatim>\<open>undefined\<close> out of range. \<open>to_number\<close> is the coercion an arithmetic operator
  applies to its operand (\<^verbatim>\<open>undefined\<close> becomes \<open>NaN\<close>).
\<close>

definition js_get :: "'a list \<Rightarrow> nat \<Rightarrow> 'a option" where
  "js_get xs i = (if i < length xs then Some (xs ! i) else None)"

fun to_number :: "jsnum option \<Rightarrow> jsnum" where
  "to_number None = NaN"
| "to_number (Some v) = v"

datatype js_error = Error string | TypeError string

section \<open>The inference engine: class MLPNetwork\<close>

text \<open>
  The loaded network definition. Optional fields of the JSON document are options
  (\<open>None\<close> is an absent or \<^verbatim>\<open>null\<close> field); an absent \<^verbatim>\<open>layers\<close> field is the
  empty list, which the constructor treats the same way.
\<close>

record layer_def =
  def_name :: "string option"
  def_activation :: "string option"
  def_weights :: "jsnum list list"
  def_biases :: "jsnum list"

record normalization_def =
  mean :: jsnum
  std :: jsnum

record network_def =
  def_layers :: "layer_def list"
  def_normalization :: "normalization_def option"
  def_architecture :: "nat list option"

record layer =
  name :: string
  activation :: string
  weights :: "jsnum list list"
  biases :: "jsnum list"

record network =
  normalization :: normalization_def
  architecture :: "nat list"
  layers :: "layer list"

text \<open>The decimal numeral of an index, as the template literal prints it.\<close>

fun string_of_nat :: "nat \<Rightarrow> string" where
  "string_of_nat n =
     (if n < 10 then [''0123456789'' ! n]
      else string_of_nat (n div 10) @ [''0123456789'' ! (n mod 10)])"

declare string_of_nat.simps [simp del]

text \<open>\<^verbatim>\<open>computeArchitecture(layers)\<close>\<close>

definition computeArchitecture :: "layer_def list \<Rightarrow> nat list" where
  "computeArchitecture ls =
     (if ls = [] then []
      else (case js_get (def_weights (hd ls)) 0 of None \<Rightarrow> 0 | Some row \<Rightarrow> length row)
           # map (\<lambda>l. length (def_biases l)) ls)"

text \<open>
  The callback of \<^verbatim>\<open>definition.layers.map((layer, index) => ...)\<close>.
  \<^verbatim>\<open>Float32Array.from\<close> converts every weight and every bias to single precision.
\<close>

definition load_layer :: "layer_def \<Rightarrow> nat \<Rightarrow> layer" where
  "load_layer l index =
     \<lparr> name = (case def_name l of None \<Rightarrow> ''dense_'' @ string_of_nat index | Some s \<Rightarrow> s),
       activation = (case def_activation l of None \<Rightarrow> ''relu'' | Some s \<Rightarrow> s),
       weights = map (\<lambda>row. map fround row) (def_weights l),
       biases = map fround (def_biases l) \<rparr>"

text \<open>\<^verbatim>\<open>new MLPNetwork(definition)\<close>\<close>

definition MLPNetwork_new :: "network_def \<Rightarrow> js_error + network" where
  "MLPNetwork_new d =
     (if length (def_layers d) = 0 then Inl (Error ''Network definition must contain layers.'')
      else Inr \<lparr>
        normalization = (case def_normalization d of
                           None \<Rightarrow> \<lparr> mean = Num 0, std = Num 1 \<rparr> | Some n \<Rightarrow> n),
        architecture = (case def_architecture d of
                           Some a \<Rightarrow> a | None \<Rightarrow> computeArchitecture (def_layers d)),
        layers = map (\<lambda>(l, index). load_layer l index)
                     (zip (def_layers d) [0..<length (def_layers d)]) \<rparr>)"

text \<open>
  \<^verbatim>\<open>forward(pixels)\<close>. The innermost loop accumulates one neuron's sum; a source index
  beyond \<open>current\<close> reads \<^verbatim>\<open>undefined\<close>, so the product is \<open>NaN\<close>. The variables
  \<^verbatim>\<open>sum\<close> and \<^verbatim>\<open>linear\<close> of the source are \<open>acc\<close> and \<open>lin\<close> here, their names
  being constants of HOL.
\<close>

function dot_loop :: "jsnum list \<Rightarrow> jsnum list \<Rightarrow> nat \<Rightarrow> jsnum \<Rightarrow> jsnum" where
  "dot_loop ws current source acc =
     (if source < length ws
      then dot_loop ws current (Suc source)
             (add64 acc (mul64 (ws ! source) (to_number (js_get current source))))
      else acc)"
  by pat_completeness auto
termination
  by (relation "measure (\<lambda>(ws, current, source, acc). length ws - source)") auto

declare dot_loop.simps [simp del]

text \<open>
  The loop over the output neurons writes \<open>linear[neuron]\<close>, a store in a
  \<^verbatim>\<open>Float32Array\<close>. A layer with fewer weight rows than biases makes
  \<^verbatim>\<open>layer.weights[neuron]\<close> undefined, and reading its \<^verbatim>\<open>length\<close> throws.
\<close>

function neuron_loop :: "layer \<Rightarrow> jsnum list \<Rightarrow> nat \<Rightarrow> jsnum list \<Rightarrow> js_error + jsnum list" where
  "neuron_loop l current neuron lin =
     (if neuron < length (biases l)
      then (case js_get (weights l) neuron of
              None \<Rightarrow> Inl (TypeError ''Cannot read properties of undefined (reading 'length')'')
            | Some ws \<Rightarrow>
                neuron_loop l current (Suc neuron)
                  (lin[neuron := fround (dot_loop ws current 0 (biases l ! neuron))]))
      else Inr lin)"
  by pat_completeness auto
termination
  by (relation "measure (\<lambda>(l, current, neuron, lin). length (biases l) - neuron)") auto

declare neuron_loop.simps [simp del]

text \<open>
  The activation. What ReLU stores in \<open>activated\<close> is an entry of \<open>linear\<close> or \<open>0\<close>,
  already in single precision, so the store does not round; the identity copies
  \<open>linear\<close>.
\<close>

definition relu :: "jsnum \<Rightarrow> jsnum" where
  "relu x = (if js_gt x (Num 0) then x else Num 0)"

definition activate :: "layer \<Rightarrow> jsnum list \<Rightarrow> jsnum list" where
  "activate l lin = (if activation l = ''relu'' then map relu lin else lin)"

record forward_result =
  normalizedInput :: "jsnum list"
  activations :: "jsnum list list"
  preActivations :: "jsnum list list"

fun layer_loop ::
  "layer list \<Rightarrow> jsnum list list \<Rightarrow> jsnum list list \<Rightarrow> jsnum list
     \<Rightarrow> js_error + (jsnum list list \<times> jsnum list list)" where
  "layer_loop [] acts pres current = Inr (acts, pres)"
| "layer_loop (l # rest) acts pres current =
     (case neuron_loop l current 0 (replicate (length (biases l)) (Num 0)) of
        Inl e \<Rightarrow> Inl e
      | Inr lin \<Rightarrow>
          (let activated = activate l lin
           in layer_loop rest (acts @ [activated]) (pres @ [lin]) activated))"

definition normalize_input :: "network \<Rightarrow> jsnum list \<Rightarrow> jsnum list" where
  "normalize_input nw pixels =
     map (\<lambda>p. fround (div64 (sub64 p (mean (normalization nw))) (std (normalization nw))))
       pixels"

definition forward :: "network \<Rightarrow> jsnum list \<Rightarrow> js_error + forward_result" where
  "forward nw pixels =
     (let input = normalize_input nw pixels
      in case layer_loop (layers nw) [input] [] input of
           Inl e \<Rightarrow> Inl e
         | Inr (acts, pres) \<Rightarrow>
             Inr \<lparr> normalizedInput = acts ! 0, activations = acts, preActivations = pres \<rparr>)"

section \<open>Class probabilities\<close>

text \<open>
  \<^verbatim>\<open>softmax(values)\<close>. The last two lines of the function (the sum of the exponentiated
  terms and the division by it) are \<open>softmax_normalise\<close>.
\<close>

definition softmax_normalise :: "jsnum list \<Rightarrow> jsnum list" where
  "softmax_normalise exps =
     (let total = foldl (\<lambda>acc v. js_add acc v) (Num 0) exps
      in map (\<lambda>v. if js_eq total (Num 0) then Num 0 else js_div v total) exps)"

definition softmax :: "jsnum list \<Rightarrow> jsnum list" where
  "softmax values =
     (if length values = 0 then []
      else (let maxVal = js_Math_max values;
                exps = map (\<lambda>v. js_exp (js_sub v maxVal)) values
            in softmax_normalise exps))"

text \<open>\<^verbatim>\<open>maxAbsValue(values)\<close>\<close>

definition maxAbsValue :: "jsnum list \<Rightarrow> jsnum" where
  "maxAbsValue values =
     foldl (\<lambda>mx v. (let magnitude = js_abs v in if js_gt magnitude mx then magnitude else mx))
       (Num 0) values"

section \<open>The network visualizer: class NetworkVisualizer\<close>

subsection \<open>Selection of the rendered connections\<close>

record connection =
  sourceIndex :: nat
  targetIndex :: nat
  weight :: jsnum

record candidate = connection +
  magnitude :: jsnum

text \<open>
  \<^verbatim>\<open>Array.prototype.sort\<close> with a comparator is stable: \<open>a\<close> stays before a later
  \<open>b\<close> unless the comparator is positive on \<open>(a, b)\<close>. It is modelled as the stable
  insertion sort under the comparator.
\<close>

fun js_insert :: "('a \<Rightarrow> 'a \<Rightarrow> jsnum) \<Rightarrow> 'a \<Rightarrow> 'a list \<Rightarrow> 'a list" where
  "js_insert cmp a [] = [a]"
| "js_insert cmp a (b # bs) =
     (if js_gt (cmp a b) (Num 0) then b # js_insert cmp a bs else a # b # bs)"

definition js_sort :: "('a \<Rightarrow> 'a \<Rightarrow> jsnum) \<Rightarrow> 'a list \<Rightarrow> 'a list" where
  "js_sort cmp xs = foldr (js_insert cmp) xs []"

text \<open>The comparator \<^verbatim>\<open>(a, b) => b.magnitude - a.magnitude\<close>.\<close>

definition by_magnitude :: "candidate \<Rightarrow> candidate \<Rightarrow> jsnum" where
  "by_magnitude a b = js_sub (magnitude b) (magnitude a)"

text \<open>The loop over the sources of one row: it collects the finite weights.\<close>

function candidate_loop ::
  "jsnum list \<Rightarrow> nat \<Rightarrow> nat \<Rightarrow> candidate list \<Rightarrow> jsnum \<Rightarrow> candidate list \<times> jsnum" where
  "candidate_loop row target source candidates maxAbsWeight =
     (if source < length row
      then (let w = row ! source
            in if \<not> js_isFinite w
               then candidate_loop row target (Suc source) candidates maxAbsWeight
               else (let m = js_abs w
                     in candidate_loop row target (Suc source)
                          (candidates @
                             [\<lparr> sourceIndex = source, targetIndex = target, weight = w,
                                magnitude = m \<rparr>])
                          (if js_gt m maxAbsWeight then m else maxAbsWeight)))
      else (candidates, maxAbsWeight))"
  by pat_completeness auto
termination
  by (relation "measure (\<lambda>(row, target, source, candidates, maxAbsWeight). length row - source)")
     auto

declare candidate_loop.simps [simp del]

definition to_connection :: "candidate \<Rightarrow> connection" where
  "to_connection c =
     \<lparr> sourceIndex = sourceIndex c, targetIndex = targetIndex c, weight = weight c \<rparr>"

text \<open>The edges pushed for one target: the first \<open>take\<close> sorted candidates.\<close>

definition take_top :: "nat \<Rightarrow> candidate list \<Rightarrow> connection list" where
  "take_top limit candidates =
     (let sorted_candidates = js_sort by_magnitude candidates;
          n = min limit (length sorted_candidates)
      in map (\<lambda>i. to_connection (sorted_candidates ! i)) [0..<n])"

function target_loop ::
  "nat \<Rightarrow> jsnum list list \<Rightarrow> nat \<Rightarrow> connection list \<Rightarrow> jsnum \<Rightarrow> connection list \<times> jsnum" where
  "target_loop limit ws target selected maxAbsWeight =
     (if target < length ws
      then (case candidate_loop (ws ! target) target 0 [] maxAbsWeight of
              (candidates, maxAbsWeight') \<Rightarrow>
                target_loop limit ws (Suc target) (selected @ take_top limit candidates)
                  maxAbsWeight')
      else (selected, maxAbsWeight))"
  by pat_completeness auto
termination
  by (relation "measure (\<lambda>(limit, ws, target, selected, maxAbsWeight). length ws - target)")
     auto

declare target_loop.simps [simp del]

text \<open>
  \<^verbatim>\<open>findImportantConnections(layer)\<close>, with the option
  \<^verbatim>\<open>maxConnectionsPerNeuron\<close> (a count) as the argument \<open>limit\<close>. The result is the
  pair \<open>(selected, maxAbsWeight)\<close>.
\<close>

definition findImportantConnections :: "nat \<Rightarrow> layer \<Rightarrow> connection list \<times> jsnum" where
  "findImportantConnections limit l = target_loop limit (weights l) 0 [] (Num 0)"

subsection \<open>Instanced meshes and their recolouring\<close>

text \<open>
  An instanced mesh holds one transform and one colour per instance. \<open>geometry\<close> names the
  shared geometry object; the \<open>needsUpdate\<close> flags of the two attributes are the dirty
  marks. \<^verbatim>\<open>setColorAt\<close> stores three components in the colour array; a store beyond the
  end of a typed array is ignored, as \<open>list_update\<close> is.
\<close>

type_synonym color = "jsnum \<times> jsnum \<times> jsnum"
type_synonym vector3 = "real \<times> real \<times> real"

record instanced_mesh =
  geometry :: nat
  instanceMatrix :: "real list list"
  matrixNeedsUpdate :: bool
  instanceColor :: "color list"
  colorNeedsUpdate :: bool

record layer_mesh =
  mesh :: instanced_mesh
  positions :: "vector3 list"

record connection_group =
  group_mesh :: instanced_mesh
  connections :: "connection list"
  sourceLayer :: nat
  maxAbsWeight :: jsnum

record options =
  layerSpacing :: real
  nodeRadius :: real
  maxConnectionsPerNeuron :: nat
  inputSpacing :: real
  hiddenSpacing :: real

record visualizer =
  mlp :: network
  opts :: options
  layerMeshes :: "layer_mesh list"
  connectionGroups :: "connection_group list"

definition setColorAt :: "instanced_mesh \<Rightarrow> nat \<Rightarrow> color \<Rightarrow> instanced_mesh" where
  "setColorAt m i c = m\<lparr> instanceColor := (instanceColor m)[i := c] \<rparr>"

definition idle_color :: color where
  "idle_color = (Num 0.08, Num 0.1, Num 0.18)"

definition ramp :: "real \<Rightarrow> real \<Rightarrow> jsnum \<Rightarrow> jsnum" where
  "ramp base slope intensity = js_add (Num base) (js_mul (Num slope) intensity)"

text \<open>The colour of one neuron in \<^verbatim>\<open>applyNodeColors\<close>.\<close>

definition node_intensity :: "jsnum \<Rightarrow> jsnum \<Rightarrow> jsnum" where
  "node_intensity v safeScale = js_min2 (Num 1) (js_div (js_abs v) safeScale)"

definition node_color :: "jsnum \<Rightarrow> jsnum \<Rightarrow> color" where
  "node_color v safeScale =
     (let intensity = node_intensity v safeScale
      in if js_lt intensity (Num 0.015) then idle_color
         else if js_ge v (Num 0)
         then (ramp 0.14 0.86 intensity, ramp 0.24 0.62 intensity, ramp 0.28 0.18 intensity)
         else (ramp 0.16 0.24 intensity, ramp 0.22 0.48 intensity, ramp 0.32 0.68 intensity))"

definition safe_scale :: "jsnum \<Rightarrow> jsnum" where
  "safe_scale scale = (if js_gt scale (Num 0.000001) then scale else Num 1)"

text \<open>\<^verbatim>\<open>applyNodeColors(mesh, values, scale)\<close>\<close>

definition applyNodeColors :: "instanced_mesh \<Rightarrow> jsnum list \<Rightarrow> jsnum \<Rightarrow> instanced_mesh" where
  "applyNodeColors m values scale =
     (let safeScale = safe_scale scale;
          m' = foldl (\<lambda>m i. setColorAt m i (node_color (values ! i) safeScale)) m
                 [0..<length values]
      in m'\<lparr> colorNeedsUpdate := True \<rparr>)"

text \<open>The colour of one connection in \<^verbatim>\<open>applyConnectionColors\<close>.\<close>

definition connection_color :: "jsnum \<Rightarrow> jsnum \<Rightarrow> color" where
  "connection_color v scale =
     (let intensity = js_min2 (Num 1) (js_div (js_abs v) scale)
      in if js_lt intensity (Num 0.02) then idle_color
         else if js_ge v (Num 0)
         then (ramp 0.25 0.75 intensity, ramp 0.32 0.45 intensity, ramp 0.2 0.15 intensity)
         else (ramp 0.2 0.18 intensity, ramp 0.28 0.4 intensity, ramp 0.4 0.55 intensity))"

text \<open>
  The first \<^verbatim>\<open>forEach\<close> of \<^verbatim>\<open>applyConnectionColors\<close>: it fills
  \<open>contributions\<close> and tracks \<open>maxContribution\<close>.
\<close>

definition contribution :: "jsnum list \<Rightarrow> connection \<Rightarrow> jsnum" where
  "contribution sourceValues c =
     js_mul (case js_get sourceValues (sourceIndex c) of None \<Rightarrow> Num 0 | Some a \<Rightarrow> a) (weight c)"

fun contribution_loop ::
  "jsnum list \<Rightarrow> connection list \<Rightarrow> jsnum list \<Rightarrow> jsnum \<Rightarrow> jsnum list \<times> jsnum" where
  "contribution_loop sourceValues [] contributions maxContribution =
     (contributions, maxContribution)"
| "contribution_loop sourceValues (c # cs) contributions maxContribution =
     (let v = contribution sourceValues c;
          m = js_abs v
      in contribution_loop sourceValues cs (contributions @ [v])
           (if js_gt m maxContribution then m else maxContribution))"

definition connection_scale :: "jsnum \<Rightarrow> jsnum \<Rightarrow> jsnum" where
  "connection_scale maxContribution w =
     (if js_gt maxContribution (Num 0.000001) then maxContribution
      else if js_truthy w then w else Num 1)"

text \<open>\<^verbatim>\<open>applyConnectionColors(group, sourceValues)\<close>\<close>

definition applyConnectionColors :: "connection_group \<Rightarrow> jsnum list \<Rightarrow> connection_group" where
  "applyConnectionColors g sourceValues =
     (case contribution_loop sourceValues (connections g) [] (Num 0) of
        (contributions, maxContribution) \<Rightarrow>
          (let scale = connection_scale maxContribution (maxAbsWeight g);
               m' = foldl (\<lambda>m i. setColorAt m i (connection_color (contributions ! i) scale))
                      (group_mesh g) [0..<length (connections g)]
           in g\<lparr> group_mesh := m'\<lparr> colorNeedsUpdate := True \<rparr> \<rparr>))"

text \<open>
  \<^verbatim>\<open>update(displayActivations, actualActivations)\<close>. The first \<^verbatim>\<open>forEach\<close> visits
  the layer meshes with their index. \<^verbatim>\<open>maxAbsValue\<close> reads the \<^verbatim>\<open>length\<close> of its
  argument, so an absent entry of \<open>actualActivations\<close> throws; the meshes recoloured before
  the throw keep their new colours, so the state is returned together with the error.
\<close>

definition node_scale :: "jsnum list list \<Rightarrow> nat \<Rightarrow> js_error + jsnum" where
  "node_scale actualActivations layerIndex =
     (if layerIndex = 0 then Inr (Num 1)
      else (case js_get actualActivations layerIndex of
              None \<Rightarrow> Inl (TypeError ''Cannot read properties of undefined (reading 'length')'')
            | Some a \<Rightarrow> Inr (maxAbsValue a)))"

fun node_pass ::
  "jsnum list list \<Rightarrow> jsnum list list \<Rightarrow> layer_mesh list \<Rightarrow> nat
     \<Rightarrow> layer_mesh list \<times> js_error option" where
  "node_pass displayActivations actualActivations [] layerIndex = ([], None)"
| "node_pass displayActivations actualActivations (lm # rest) layerIndex =
     (case js_get displayActivations layerIndex of
        None \<Rightarrow>
          (case node_pass displayActivations actualActivations rest (Suc layerIndex) of
             (rest', e) \<Rightarrow> (lm # rest', e))
      | Some values \<Rightarrow>
          (case node_scale actualActivations layerIndex of
             Inl e \<Rightarrow> (lm # rest, Some e)
           | Inr scale \<Rightarrow>
               (let lm' = lm\<lparr> mesh := applyNodeColors (mesh lm) values
                                         (if js_truthy scale then scale else Num 1) \<rparr>
                in case node_pass displayActivations actualActivations rest (Suc layerIndex) of
                     (rest', e) \<Rightarrow> (lm' # rest', e))))"

definition connection_pass :: "jsnum list list \<Rightarrow> connection_group \<Rightarrow> connection_group" where
  "connection_pass actualActivations g =
     (case js_get actualActivations (sourceLayer g) of
        None \<Rightarrow> g
      | Some sourceValues \<Rightarrow> applyConnectionColors g sourceValues)"

definition update ::
  "jsnum list list \<Rightarrow> jsnum list list \<Rightarrow> visualizer \<Rightarrow> visualizer \<times> js_error option" where
  "update displayActivations actualActivations v =
     (case node_pass displayActivations actualActivations (layerMeshes v) 0 of
        (lms, Some e) \<Rightarrow> (v\<lparr> layerMeshes := lms \<rparr>, Some e)
      | (lms, None) \<Rightarrow>
          (v\<lparr> layerMeshes := lms,
              connectionGroups := map (connection_pass actualActivations) (connectionGroups v) \<rparr>,
           None))"

subsection \<open>Spatial layout\<close>

text \<open>
  \<^verbatim>\<open>computeLayerPositions(layerIndex, neuronCount, layerX)\<close>. The neuron count is a
  natural number and the spacings are finite. For the input layer and no neuron the source
  computes \<^verbatim>\<open>rows = Math.ceil(0 / 0)\<close>, which is \<open>NaN\<close>, and its loop does not run;
  here \<open>rows\<close> is then \<open>0\<close> and the loop does not run either.
\<close>

definition ceil_sqrt :: "nat \<Rightarrow> nat" where
  "ceil_sqrt n = nat \<lceil>sqrt (real n)\<rceil>"

definition ceil_div :: "nat \<Rightarrow> nat \<Rightarrow> nat" where
  "ceil_div n c = nat \<lceil>real n / real c\<rceil>"

definition grid_position :: "real \<Rightarrow> real \<Rightarrow> real \<Rightarrow> real \<Rightarrow> nat \<Rightarrow> nat \<Rightarrow> vector3" where
  "grid_position layerX spacing height width r c =
     (layerX, height / 2 - real r * spacing, - width / 2 + real c * spacing)"

function col_loop ::
  "(nat \<Rightarrow> vector3) \<Rightarrow> nat \<Rightarrow> nat \<Rightarrow> nat \<Rightarrow> nat \<Rightarrow> vector3 list \<Rightarrow> nat \<times> vector3 list" where
  "col_loop place cols neuronCount c filled ps =
     (if c < cols \<and> filled < neuronCount
      then col_loop place cols neuronCount (Suc c) (Suc filled) (ps @ [place c])
      else (filled, ps))"
  by pat_completeness auto
termination
  by (relation "measure (\<lambda>(place, cols, neuronCount, c, filled, ps). cols - c)") auto

declare col_loop.simps [simp del]

function row_loop ::
  "(nat \<Rightarrow> nat \<Rightarrow> vector3) \<Rightarrow> nat \<Rightarrow> nat \<Rightarrow> nat \<Rightarrow> nat \<Rightarrow> nat \<Rightarrow> vector3 list \<Rightarrow> vector3 list" where
  "row_loop place rows cols neuronCount r filled ps =
     (if r < rows \<and> filled < neuronCount
      then (case col_loop (place r) cols neuronCount 0 filled ps of
              (filled', ps') \<Rightarrow> row_loop place rows cols neuronCount (Suc r) filled' ps')
      else ps)"
  by pat_completeness auto
termination
  by (relation "measure (\<lambda>(place, rows, cols, neuronCount, r, filled, ps). rows - r)") auto

declare row_loop.simps [simp del]

definition computeLayerPositions :: "visualizer \<Rightarrow> nat \<Rightarrow> nat \<Rightarrow> real \<Rightarrow> vector3 list" where
  "computeLayerPositions v layerIndex neuronCount layerX =
     (if layerIndex = 0
      then (let spacing = inputSpacing (opts v);
                (rows, cols) =
                  (if neuronCount = 28 * 28 then (28, 28)
                   else (let cols = ceil_sqrt neuronCount
                         in (ceil_div neuronCount cols, cols)));
                height = (real rows - 1) * spacing;
                width = (real cols - 1) * spacing
            in row_loop (grid_position layerX spacing height width) rows cols neuronCount 0 0 [])
      else (let spacing = hiddenSpacing (opts v);
                cols = max 1 (ceil_sqrt neuronCount);
                rows = ceil_div neuronCount cols;
                height = (real rows - 1) * spacing;
                width = (real cols - 1) * spacing
            in map (\<lambda>index. grid_position layerX spacing height width
                                (index div cols) (index mod cols))
                 [0..<neuronCount]))"

section \<open>The drawing grid: class DrawingGrid\<close>

text \<open>
  The pixel buffer is a typed array that the grid owns and that \<^verbatim>\<open>getPixels\<close> copies, so
  typed arrays live in a store: a list of buffers, an array being the index of its buffer.
  Allocation appends a buffer. The cells of the page, the pointer events and the scheduling of
  the change handler are outside the model; the container is taken to exist.
\<close>

type_synonym store = "jsnum list list"

record drawing_grid =
  grid_rows :: nat
  grid_cols :: nat
  grid_values :: nat

definition DrawingGrid_new :: "store \<Rightarrow> nat \<Rightarrow> nat \<Rightarrow> store \<times> drawing_grid" where
  "DrawingGrid_new h rows cols =
     (h @ [replicate (rows * cols) (Num 0)],
      \<lparr> grid_rows = rows, grid_cols = cols, grid_values = length h \<rparr>)"

text \<open>\<^verbatim>\<open>paintCell(index, erase)\<close>\<close>

definition paintCell :: "store \<Rightarrow> drawing_grid \<Rightarrow> nat \<Rightarrow> bool \<Rightarrow> store" where
  "paintCell h g index erase =
     (let delta = (if erase then Num (- 0.45) else Num 0.55);
          vs = h ! grid_values g;
          nextValue = js_min2 (Num 1) (js_max2 (Num 0) (js_add (to_number (js_get vs index)) delta))
      in if (case js_get vs index of None \<Rightarrow> False | Some old \<Rightarrow> js_eq nextValue old) then h
         else h[grid_values g := vs[index := nextValue]])"

text \<open>\<^verbatim>\<open>clear()\<close>\<close>

definition clear :: "store \<Rightarrow> drawing_grid \<Rightarrow> store" where
  "clear h g = h[grid_values g := map (\<lambda>_. Num 0) (h ! grid_values g)]"

text \<open>\<^verbatim>\<open>getPixels()\<close>: the store with the new array, and the new array.\<close>

definition getPixels :: "store \<Rightarrow> drawing_grid \<Rightarrow> store \<times> nat" where
  "getPixels h g = (h @ [h ! grid_values g], length h)"

text \<open>
  What can happen to a grid: a paint step that draws or erases at a cell, a reset, and a
  caller that takes the pixels and then overwrites the array it was given with contents of
  its own.
\<close>

datatype grid_event = Draw nat | Erase nat | Clear | Scribble "jsnum list"

fun grid_step :: "drawing_grid \<Rightarrow> store \<Rightarrow> grid_event \<Rightarrow> store" where
  "grid_step g h (Draw index) = paintCell h g index False"
| "grid_step g h (Erase index) = paintCell h g index True"
| "grid_step g h Clear = clear h g"
| "grid_step g h (Scribble junk) = (case getPixels h g of (h', a) \<Rightarrow> h'[a := junk])"

definition grid_run :: "drawing_grid \<Rightarrow> store \<Rightarrow> grid_event list \<Rightarrow> store" where
  "grid_run g h events = foldl (grid_step g) h events"

definition unit_interval :: "jsnum \<Rightarrow> bool" where
  "unit_interval v = (case v of Num x \<Rightarrow> 0 \<le> x \<and> x \<le> 1 | _ \<Rightarrow> False)"

definition is_scribble :: "grid_event \<Rightarrow> bool" where
  "is_scribble e = (case e of Scribble junk \<Rightarrow> True | _ \<Rightarrow> False)"

section \<open>Reference definitions and the inputs of the examples\<close>

subsection \<open>The dense layer as a formula\<close>

text \<open>
  The formula of the design for one neuron, \<open>bias + \<Sum>\<^sub>k weight[k] * current[k]\<close>, summed from
  the bias on in the order of the sources with the operations on doubles, and for a whole
  layer, whose entries are stored in single precision. \<open>layer_trace\<close> lists, for each layer
  in order, its pre-activation and its activation. A real is a double when rounding to double
  precision leaves it as it is.
\<close>

definition weighted_sum :: "jsnum \<Rightarrow> jsnum list \<Rightarrow> jsnum list \<Rightarrow> jsnum" where
  "weighted_sum b ws current =
     foldl add64 b (map (\<lambda>k. mul64 (ws ! k) (to_number (js_get current k))) [0..<length ws])"

definition dense :: "layer \<Rightarrow> jsnum list \<Rightarrow> jsnum list" where
  "dense l current =
     map (\<lambda>j. fround (weighted_sum (biases l ! j) (weights l ! j) current))
       [0..<length (biases l)]"

definition is_double :: "real \<Rightarrow> bool" where
  "is_double x = (dround (Num x) = Num x)"

fun layer_trace :: "layer list \<Rightarrow> jsnum list \<Rightarrow> (jsnum list \<times> jsnum list) list" where
  "layer_trace [] current = []"
| "layer_trace (l # ls) current =
     (dense l current, activate l (dense l current)) #
       layer_trace ls (activate l (dense l current))"

text \<open>Every output neuron of the layer has a weight row.\<close>

definition rows_present :: "layer \<Rightarrow> bool" where
  "rows_present l = (length (biases l) \<le> length (weights l))"

text \<open>
  A definition has a dimension mismatch when some weight row of some layer is not as long as
  the layer's input is wide: the first entry of the architecture for layer 0, the number of
  biases of the layer before for the others.
\<close>

definition input_width :: "network_def \<Rightarrow> nat \<Rightarrow> nat" where
  "input_width d i =
     (if i = 0
      then (case def_architecture d of
              Some a \<Rightarrow> hd a | None \<Rightarrow> hd (computeArchitecture (def_layers d)))
      else length (def_biases (def_layers d ! (i - 1))))"

definition dimension_mismatch :: "network_def \<Rightarrow> bool" where
  "dimension_mismatch d =
     list_ex (\<lambda>i. list_ex (\<lambda>row. length row \<noteq> input_width d i) (def_weights (def_layers d ! i)))
       [0..<length (def_layers d)]"

text \<open>
  Example inputs. \<open>scenario_def\<close> is the end-to-end scenario of the design: architecture
  \<open>[4, 3, 2]\<close>, identity activations, no bias. \<open>mismatched_def\<close> has a second layer whose
  only row has two weights although the first layer has one output. \<open>defaulted_def\<close> names
  no activation in its first layer and a misspelt one in its second.
\<close>

definition identity_layer :: "jsnum list list \<Rightarrow> jsnum list \<Rightarrow> layer_def" where
  "identity_layer ws bs =
     \<lparr> def_name = None, def_activation = Some ''identity'', def_weights = ws, def_biases = bs \<rparr>"

definition scenario_def :: network_def where
  "scenario_def =
     \<lparr> def_layers =
         [identity_layer [[Num 1, Num 0, Num 0, Num 0], [Num 0, Num 1, Num 0, Num 0],
                          [Num 0, Num 0, Num 1, Num 0]] [Num 0, Num 0, Num 0],
          identity_layer [[Num 1, Num 1, Num 1], [Num 1, Num 1, Num 1]] [Num 0, Num 0]],
       def_normalization = Some \<lparr> mean = Num 0, std = Num 1 \<rparr>,
       def_architecture = Some [4, 3, 2] \<rparr>"

definition mismatched_def :: network_def where
  "mismatched_def =
     \<lparr> def_layers = [identity_layer [[Num 1]] [Num 0], identity_layer [[Num 1, Num 1]] [Num 0]],
       def_normalization = None,
       def_architecture = None \<rparr>"

definition defaulted_def :: network_def where
  "defaulted_def =
     \<lparr> def_layers =
         [\<lparr> def_name = None, def_activation = None,
            def_weights = [[Num 1], [Num (- 1)]], def_biases = [Num 0, Num 0] \<rparr>,
          \<lparr> def_name = None, def_activation = Some ''Relu'',
            def_weights = [[Num 1, Num 1], [Num (- 1), Num 1]], def_biases = [Num 0, Num 0] \<rparr>],
       def_normalization = None,
       def_architecture = None \<rparr>"

definition empty_def :: network_def where
  "empty_def = \<lparr> def_layers = [], def_normalization = None, def_architecture = None \<rparr>"

text \<open>The networks that the constructor builds from the example definitions.\<close>

definition loaded :: "string \<Rightarrow> string \<Rightarrow> jsnum list list \<Rightarrow> jsnum list \<Rightarrow> layer" where
  "loaded n a ws bs = \<lparr> name = n, activation = a, weights = ws, biases = bs \<rparr>"

definition scenario_net :: network where
  "scenario_net =
     \<lparr> normalization = \<lparr> mean = Num 0, std = Num 1 \<rparr>,
       architecture = [4, 3, 2],
       layers =
         [loaded ''dense_0'' ''identity''
            [[Num 1, Num 0, Num 0, Num 0], [Num 0, Num 1, Num 0, Num 0],
             [Num 0, Num 0, Num 1, Num 0]] [Num 0, Num 0, Num 0],
          loaded ''dense_1'' ''identity''
            [[Num 1, Num 1, Num 1], [Num 1, Num 1, Num 1]] [Num 0, Num 0]] \<rparr>"

definition mismatched_net :: network where
  "mismatched_net =
     \<lparr> normalization = \<lparr> mean = Num 0, std = Num 1 \<rparr>,
       architecture = [1, 1, 1],
       layers =
         [loaded ''dense_0'' ''identity'' [[Num 1]] [Num 0],
          loaded ''dense_1'' ''identity'' [[Num 1, Num 1]] [Num 0]] \<rparr>"

definition defaulted_net :: network where
  "defaulted_net =
     \<lparr> normalization = \<lparr> mean = Num 0, std = Num 1 \<rparr>,
       architecture = [1, 2, 2],
       layers =
         [loaded ''dense_0'' ''relu'' [[Num 1], [Num (- 1)]] [Num 0, Num 0],
          loaded ''dense_1'' ''Relu'' [[Num 1, Num 1], [Num (- 1), Num 1]] [Num 0, Num 0]] \<rparr>"

text \<open>
  A definition whose only layer has a bias and no weight row, and the network built from it.
  The derived architecture is \<open>[0, 1]\<close>, so the pixel vector of the right length is empty.
\<close>

definition rowless_def :: network_def where
  "rowless_def =
     \<lparr> def_layers = [\<lparr> def_name = None, def_activation = None,
                        def_weights = [], def_biases = [Num 0] \<rparr>],
       def_normalization = None,
       def_architecture = None \<rparr>"

definition rowless_net :: network where
  "rowless_net =
     \<lparr> normalization = \<lparr> mean = Num 0, std = Num 1 \<rparr>,
       architecture = [0, 1],
       layers = [loaded ''dense_0'' ''relu'' [] [Num 0]] \<rparr>"

text \<open>
  A definition of one neuron with two weights \<open>2\<^sup>1\<^sup>2\<^sup>7\<close>, and the network built from it:
  on the pixels \<open>[1, 1]\<close> the sum \<open>2\<^sup>1\<^sup>2\<^sup>8\<close> is a double and beyond single precision.
\<close>

definition overflow_def :: network_def where
  "overflow_def =
     \<lparr> def_layers = [identity_layer
                       [[Num 170141183460469231731687303715884105728,
                         Num 170141183460469231731687303715884105728]] [Num 0]],
       def_normalization = None,
       def_architecture = None \<rparr>"

definition overflow_net :: network where
  "overflow_net =
     \<lparr> normalization = \<lparr> mean = Num 0, std = Num 1 \<rparr>,
       architecture = [2, 1],
       layers = [loaded ''dense_0'' ''identity''
                   [[Num 170141183460469231731687303715884105728,
                     Num 170141183460469231731687303715884105728]] [Num 0]] \<rparr>"

subsection \<open>The rendered connections of one target\<close>

text \<open>
  \<open>finite_candidates row target\<close> lists the finite weights of a row as candidates, in the
  order of the columns. \<open>edges_of_target limit l target\<close> are the selected connections of
  layer \<open>l\<close> that end in \<open>target\<close>. Candidate \<open>a\<close> precedes \<open>b\<close> when its magnitude is
  greater, or the same with a smaller column.
\<close>

definition make_candidate :: "jsnum list \<Rightarrow> nat \<Rightarrow> nat \<Rightarrow> candidate" where
  "make_candidate row target source =
     \<lparr> sourceIndex = source, targetIndex = target, weight = row ! source,
       magnitude = js_abs (row ! source) \<rparr>"

definition finite_candidates :: "jsnum list \<Rightarrow> nat \<Rightarrow> candidate list" where
  "finite_candidates row target =
     map (make_candidate row target) (filter (\<lambda>k. js_isFinite (row ! k)) [0..<length row])"

definition edges_of_target :: "nat \<Rightarrow> layer \<Rightarrow> nat \<Rightarrow> connection list" where
  "edges_of_target limit l target =
     filter (\<lambda>e. targetIndex e = target) (fst (findImportantConnections limit l))"

definition precedes :: "jsnum \<Rightarrow> nat \<Rightarrow> jsnum \<Rightarrow> nat \<Rightarrow> bool" where
  "precedes m s m' s' = (js_gt m m' \<or> (m = m' \<and> s < s'))"

definition candidate_precedes :: "candidate \<Rightarrow> candidate \<Rightarrow> bool" where
  "candidate_precedes a b = precedes (magnitude a) (sourceIndex a) (magnitude b) (sourceIndex b)"

text \<open>A layer with one target whose first weight is not finite.\<close>

definition gap_layer :: layer where
  "gap_layer = \<lparr> name = ''dense_0'', activation = ''relu'',
                  weights = [[PosInf, Num 1]], biases = [Num 0] \<rparr>"

text \<open>A layer with two targets and ties among its weights.\<close>

definition tie_layer :: layer where
  "tie_layer = \<lparr> name = ''dense_0'', activation = ''relu'',
                  weights = [[Num 1, Num (- 3), PosInf, Num 3, Num 2], [Num 5, Num 0]],
                  biases = [Num 0, Num 0] \<rparr>"

definition finite_magnitude :: "candidate \<Rightarrow> bool" where
  "finite_magnitude c = js_isFinite (magnitude c)"

definition edge_precedes :: "connection \<Rightarrow> connection \<Rightarrow> bool" where
  "edge_precedes e e' =
     precedes (js_abs (weight e)) (sourceIndex e) (js_abs (weight e')) (sourceIndex e')"

subsection \<open>Recolouring: the frame and the claimed scales\<close>

text \<open>
  \<open>colors_only m m'\<close>: mesh \<open>m'\<close> is mesh \<open>m\<close> but for the contents of its colour array
  and the dirty mark of that array; the colour array has kept its size.
\<close>

definition colors_only :: "instanced_mesh \<Rightarrow> instanced_mesh \<Rightarrow> bool" where
  "colors_only m m' =
     (m'\<lparr> instanceColor := instanceColor m, colorNeedsUpdate := colorNeedsUpdate m \<rparr> = m \<and>
      length (instanceColor m') = length (instanceColor m))"


definition group_kept :: "connection_group \<Rightarrow> connection_group \<Rightarrow> bool" where
  "group_kept g g' =
     (connections g' = connections g \<and> sourceLayer g' = sourceLayer g \<and>
      maxAbsWeight g' = maxAbsWeight g \<and> colors_only (group_mesh g) (group_mesh g'))"

text \<open>
  The scale of a layer's neurons as the code takes it: \<open>1\<close> for the input layer, and for
  the others the greatest magnitude of the layer's actual activations, or \<open>1\<close> when that
  is not above \<open>10\<^sup>-\<^sup>6\<close>.
\<close>

definition layer_scale :: "jsnum list list \<Rightarrow> nat \<Rightarrow> jsnum" where
  "layer_scale actualActivations layerIndex =
     (if layerIndex = 0 then Num 1
      else (let m = maxAbsValue (actualActivations ! layerIndex)
            in if js_gt m (Num 0.000001) then m else Num 1))"

text \<open>
  The colour the claim C6 gives neuron \<open>i\<close> of a layer: scaled by the greatest magnitude
  of the layer's actual activations, with the floor, for every layer.
\<close>

definition claimed_node_color :: "jsnum list list \<Rightarrow> jsnum list list \<Rightarrow> nat \<Rightarrow> nat \<Rightarrow> color" where
  "claimed_node_color displayActivations actualActivations layerIndex i =
     node_color (displayActivations ! layerIndex ! i)
       (safe_scale (maxAbsValue (actualActivations ! layerIndex)))"


text \<open>
  A scene of one input neuron and one output neuron, joined by a connection of weight \<open>0\<close>
  (the layer \<open>zero_layer\<close>). The transform of an instance is a row of sixteen numbers.
\<close>

definition zero_layer :: layer where
  "zero_layer = \<lparr> name = ''dense_0'', activation = ''relu'',
                   weights = [[Num 0]], biases = [Num 0] \<rparr>"

definition demo_matrix :: "real list" where
  "demo_matrix = [1, 0, 0, 0, 0, 1, 0, 0, 0, 0, 1, 0, 0, 0, 0, 1]"

definition demo_mesh :: "nat \<Rightarrow> instanced_mesh" where
  "demo_mesh geo =
     \<lparr> geometry = geo, instanceMatrix = [demo_matrix], matrixNeedsUpdate = True,
       instanceColor = [(Num 0.08, Num 0.1, Num 0.18)], colorNeedsUpdate = True \<rparr>"

definition demo_group :: connection_group where
  "demo_group =
     \<lparr> group_mesh = demo_mesh 1,
       connections = [\<lparr> sourceIndex = 0, targetIndex = 0, weight = Num 0 \<rparr>],
       sourceLayer = 0, maxAbsWeight = Num 0 \<rparr>"

definition demo_visualizer :: visualizer where
  "demo_visualizer =
     \<lparr> mlp = \<lparr> normalization = \<lparr> mean = Num 0, std = Num (1 / 2) \<rparr>, architecture = [1, 1],
               layers = [zero_layer] \<rparr>,
       opts = \<lparr> layerSpacing = 5.5, nodeRadius = 0.26, maxConnectionsPerNeuron = 20,
                inputSpacing = 0.32, hiddenSpacing = 0.9 \<rparr>,
       layerMeshes = [\<lparr> mesh = demo_mesh 0, positions = [(- 2.75, 0, 0)] \<rparr>,
                      \<lparr> mesh = demo_mesh 0, positions = [(2.75, 0, 0)] \<rparr>],
       connectionGroups = [demo_group] \<rparr>"

text \<open>One step of the loops that track a greatest magnitude.\<close>

definition max_step :: "jsnum \<Rightarrow> jsnum \<Rightarrow> jsnum" where
  "max_step mx v = (let magnitude = js_abs v in if js_gt magnitude mx then magnitude else mx)"

subsection \<open>The inputs and the terms of softmax\<close>

text \<open>
  \<open>exp_terms values\<close> is the array \<^verbatim>\<open>exps\<close> of \<^verbatim>\<open>softmax\<close>. A number is below infinity
  when it is finite or \<open>-Infinity\<close>. The vectors on which \<open>softmax\<close> yields probabilities
  are those whose elements are all below infinity, one of them at least being finite.
  \<open>term_value m v\<close> is the real that \<^verbatim>\<open>Math.exp(v - m)\<close> yields for such an element
  \<open>v\<close> under a finite maximum \<open>m\<close>.
\<close>

definition exp_terms :: "jsnum list \<Rightarrow> jsnum list" where
  "exp_terms vs = map (\<lambda>v. js_exp (js_sub v (js_Math_max vs))) vs"

definition below_infinity :: "jsnum \<Rightarrow> bool" where
  "below_infinity v = (v \<noteq> NaN \<and> v \<noteq> PosInf)"

definition softmax_domain :: "jsnum list \<Rightarrow> bool" where
  "softmax_domain vs = (list_all below_infinity vs \<and> list_ex js_isFinite vs)"

definition term_value :: "real \<Rightarrow> jsnum \<Rightarrow> real" where
  "term_value m v =
     (case v of Num x \<Rightarrow> (if exp (x - m) < pow2 (- 1075) then 0 else exp (x - m)) | _ \<Rightarrow> 0)"


section \<open>Rounding\<close>


lemma pow2_powr: "pow2 k = 2 powr real_of_int k"
  by (simp add: pow2_def powr_real_of_int inverse_eq_divide)

lemma pow2_pos [simp]: "0 < pow2 k"
  by (simp add: pow2_def)

lemma pow2_nonzero [simp]: "pow2 k \<noteq> 0" "\<not> pow2 k \<le> 0" "\<not> pow2 k < 0"
  by (simp_all add: pow2_def not_le not_less less_imp_le)

lemma pow2_add: "pow2 (a + b) = pow2 a * pow2 b"
  by (simp add: pow2_powr powr_add)

lemma pow2_mono: "a \<le> b \<Longrightarrow> pow2 a \<le> pow2 b"
  by (simp add: pow2_powr)

lemma floor_log2_eq:
  assumes "pow2 e \<le> y" and "y < pow2 (e + 1)"
  shows "\<lfloor>log 2 y\<rfloor> = e"
proof -
  have "0 < y" using assms(1) pow2_pos[of e] by linarith
  moreover have "2 powr real_of_int e \<le> y \<and> y < 2 powr (real_of_int e + 1)"
    using assms by (simp add: pow2_powr)
  ultimately show ?thesis
    by (simp add: floor_log_eq_powr_iff)
qed

lemma round_even_of_int [simp]: "round_even (of_int n) = n"
  by (simp add: round_even_def)

lemma round_binary_eval:
  assumes "pow2 e \<le> \<bar>x\<bar>" and "\<bar>x\<bar> < pow2 (e + 1)"
  shows "round_binary p emin x =
     of_int (round_even (x / pow2 (max e emin - (int p - 1)))) * pow2 (max e emin - (int p - 1))"
proof -
  have "x \<noteq> 0" using assms(1) pow2_pos[of e] by auto
  then show ?thesis
    by (simp add: round_binary_def Let_def floor_log2_eq[OF assms])
qed

lemma round_binary_exact:
  assumes "pow2 e \<le> \<bar>x\<bar>" and "\<bar>x\<bar> < pow2 (e + 1)"
    and "x / pow2 (max e emin - (int p - 1)) = of_int n"
  shows "round_binary p emin x = x"
proof -
  let ?u = "pow2 (max e emin - (int p - 1))"
  have "round_binary p emin x = of_int n * ?u"
    by (simp add: round_binary_eval[OF assms(1,2)] assms(3))
  also have "\<dots> = x / ?u * ?u" by (simp add: assms(3))
  also have "\<dots> = x" using pow2_pos[of "max e emin - (int p - 1)"] by simp
  finally show ?thesis .
qed

lemma to_binary_special [simp]:
  "to_binary p emin emax NaN = NaN" "to_binary p emin emax PosInf = PosInf"
  "to_binary p emin emax NegInf = NegInf" "to_binary p emin emax (Num 0) = Num 0"
  by (simp_all add: to_binary_def round_binary_def)

lemma dround_special [simp]:
  "dround NaN = NaN" "dround PosInf = PosInf" "dround NegInf = NegInf" "dround (Num 0) = Num 0"
  by (simp_all add: dround_def)

lemma fround_special [simp]:
  "fround NaN = NaN" "fround PosInf = PosInf" "fround NegInf = NegInf" "fround (Num 0) = Num 0"
  by (simp_all add: fround_def)

text \<open>An integer below \<open>2\<^sup>p\<close> in magnitude is a number of the format.\<close>

lemma round_binary_int:
  assumes "\<bar>m\<bar> < 2 ^ p" and "emin \<le> 0" and "0 < p"
  shows "round_binary p emin (of_int m) = of_int m"
proof (cases "m = 0")
  case True
  then show ?thesis by (simp add: round_binary_def)
next
  case False
  let ?x = "real_of_int m"
  define e where "e = \<lfloor>log 2 \<bar>?x\<bar>\<rfloor>"
  have one: "1 \<le> \<bar>?x\<bar>" using False by (simp add: abs_if)
  have lt: "\<bar>?x\<bar> < 2 ^ p"
    using assms(1) by (metis of_int_abs of_int_less_iff of_int_numeral of_int_power)
  have e0: "0 \<le> e"
    unfolding e_def using one by simp
  have "log 2 \<bar>?x\<bar> < real p"
    using lt one by (simp add: log_less_iff powr_realpow)
  then have ep: "e < int p"
    unfolding e_def by (simp add: floor_less_iff)
  have b: "pow2 e \<le> \<bar>?x\<bar> \<and> \<bar>?x\<bar> < pow2 (e + 1)"
    using one floor_log_eq_powr_iff[of "\<bar>?x\<bar>" 2 e] by (simp add: e_def pow2_powr)
  have mx: "max e emin = e" using e0 assms(2) by simp
  have neg: "e - (int p - 1) \<le> 0" using ep by simp
  have "pow2 (e - (int p - 1)) = 1 / 2 ^ nat (int p - 1 - e)"
    using neg by (cases "e - (int p - 1) = 0") (simp_all add: pow2_def)
  then have "?x / pow2 (max e emin - (int p - 1)) = of_int (m * 2 ^ nat (int p - 1 - e))"
    by (simp add: mx)
  then show ?thesis
    using b by (intro round_binary_exact[where e = e and n = "m * 2 ^ nat (int p - 1 - e)"]) simp_all
qed

lemma to_binary_int:
  assumes "\<bar>m\<bar> < 2 ^ p" and "emin \<le> 0" and "0 < p" and "int p \<le> emax + 1"
  shows "to_binary p emin emax (Num (of_int m)) = Num (of_int m)"
proof -
  have "\<bar>real_of_int m\<bar> < 2 ^ p"
    using assms(1) by (metis of_int_abs of_int_less_iff of_int_numeral of_int_power)
  also have "(2::real) ^ p \<le> pow2 (emax + 1)"
  proof -
    have "pow2 (int p) \<le> pow2 (emax + 1)" using assms(4) by (rule pow2_mono)
    then show ?thesis by (simp add: pow2_def)
  qed
  finally have "\<not> pow2 (emax + 1) \<le> \<bar>real_of_int m\<bar>" by simp
  then show ?thesis
    by (simp add: to_binary_def round_binary_int[OF assms(1-3)])
qed

lemma dround_int: "\<bar>m\<bar> < 2 ^ 53 \<Longrightarrow> dround (Num (of_int m)) = Num (of_int m)"
  unfolding dround_def by (rule to_binary_int) simp_all

lemma fround_int: "\<bar>m\<bar> < 2 ^ 24 \<Longrightarrow> fround (Num (of_int m)) = Num (of_int m)"
  unfolding fround_def by (rule to_binary_int) simp_all

lemma is_double_int: "\<bar>m\<bar> < 2 ^ 53 \<Longrightarrow> is_double (of_int m)"
  by (simp add: is_double_def dround_int)

lemmas small_doubles =
  dround_int[of 1, simplified] dround_int[of "- 1", simplified]
  dround_int[of 2, simplified] dround_int[of "- 2", simplified]

lemmas small_singles =
  fround_int[of 1, simplified] fround_int[of "- 1", simplified]
  fround_int[of 2, simplified] fround_int[of "- 2", simplified]

text \<open>A power of two within the exponent range is a number of the format; beyond, it overflows.\<close>

lemma pow2_abs [simp]: "\<bar>pow2 k\<bar> = pow2 k"
  by (simp add: pow2_def)

lemma pow2_Suc: "pow2 (k + 1) = 2 * pow2 k"
  by (simp add: pow2_powr powr_add)

lemma pow2_strict_mono: "a < b \<Longrightarrow> pow2 a < pow2 b"
  by (simp add: pow2_powr)

lemma round_binary_pow2:
  assumes "emin \<le> k" and "0 < p"
  shows "round_binary p emin (pow2 k) = pow2 k"
proof (rule round_binary_exact[where e = k and n = "2 ^ (p - 1)"])
  show "pow2 k \<le> \<bar>pow2 k\<bar>" by simp
  show "\<bar>pow2 k\<bar> < pow2 (k + 1)" by (simp add: pow2_Suc)
  have "pow2 k = pow2 (k - (int p - 1)) * pow2 (int p - 1)"
    by (simp add: pow2_add[symmetric])
  moreover have "pow2 (int p - 1) = 2 ^ (p - 1)"
    using assms(2) by (simp add: pow2_def nat_diff_distrib')
  ultimately show "pow2 k / pow2 (max k emin - (int p - 1)) = real_of_int (2 ^ (p - 1))"
    using assms(1) by (simp add: max.absorb1)
qed

lemma to_binary_pow2:
  assumes "emin \<le> k" and "0 < p"
  shows "to_binary p emin emax (Num (pow2 k)) = (if emax < k then PosInf else Num (pow2 k))"
proof -
  have "pow2 (emax + 1) \<le> pow2 k \<longleftrightarrow> emax < k"
    using pow2_mono[of "emax + 1" k] pow2_strict_mono[of k "emax + 1"] by fastforce
  then show ?thesis
    by (simp add: to_binary_def round_binary_pow2[OF assms] Let_def)
qed

lemma dround_pow2: "- 1022 \<le> k \<Longrightarrow> dround (Num (pow2 k)) = (if 1023 < k then PosInf else Num (pow2 k))"
  unfolding dround_def by (rule to_binary_pow2) simp_all

lemma fround_pow2: "- 126 \<le> k \<Longrightarrow> fround (Num (pow2 k)) = (if 127 < k then PosInf else Num (pow2 k))"
  unfolding fround_def by (rule to_binary_pow2) simp_all

lemma big_values:
  "dround (Num 170141183460469231731687303715884105728) =
     Num 170141183460469231731687303715884105728"
  "fround (Num 170141183460469231731687303715884105728) =
     Num 170141183460469231731687303715884105728"
  "dround (Num 340282366920938463463374607431768211456) =
     Num 340282366920938463463374607431768211456"
  "fround (Num 340282366920938463463374607431768211456) = PosInf"
  using dround_pow2[of 127] fround_pow2[of 127] dround_pow2[of 128] fround_pow2[of 128]
  by (simp_all add: pow2_def)

text \<open>Adding \<open>1\<close> to \<open>2\<^sup>5\<^sup>3\<close> in doubles gives \<open>2\<^sup>5\<^sup>3\<close>: the tie goes to the even significand.\<close>

lemma dround_tie: "add64 (Num 1) (Num 9007199254740992) = Num 9007199254740992"
proof -
  have "round_binary 53 (- 1022) 9007199254740993 =
      of_int (round_even (9007199254740993 / pow2 (max 53 (- 1022) - (int 53 - 1)))) *
        pow2 (max 53 (- 1022) - (int 53 - 1))"
    by (rule round_binary_eval) (simp_all add: pow2_def)
  also have "\<dots> = 9007199254740992"
    by (simp add: pow2_def round_even_def)
  finally show ?thesis
    by (simp add: add64_def dround_def to_binary_def pow2_def)
qed

lemma dround_no_tie: "add64 (Num 0) (Num 9007199254740992) = Num 9007199254740992"
  using dround_pow2[of 53] by (simp add: add64_def pow2_def)


section \<open>The forward pass\<close>

subsection \<open>The loops in closed form\<close>

lemma dot_loop_fold:
  "dot_loop ws current source acc =
     foldl add64 acc
       (map (\<lambda>k. mul64 (ws ! k) (to_number (js_get current k))) [source..<length ws])"
proof (induction ws current source acc rule: dot_loop.induct)
  case (1 ws current source acc)
  show ?case
  proof (cases "source < length ws")
    case True
    then have "[source..<length ws] = source # [Suc source..<length ws]"
      by (simp add: upt_conv_Cons)
    with True 1 show ?thesis
      by (subst dot_loop.simps) simp
  next
    case False
    then show ?thesis by (subst dot_loop.simps) simp
  qed
qed

lemma dot_loop_weighted_sum: "dot_loop ws current 0 b = weighted_sum b ws current"
  by (simp add: dot_loop_fold weighted_sum_def)

lemma neuron_loop_closed:
  assumes "rows_present l"
    and "neuron \<le> length (biases l)" and "length lin = length (biases l)"
  shows "neuron_loop l current neuron lin =
     Inr (take neuron lin @
          map (\<lambda>j. fround (weighted_sum (biases l ! j) (weights l ! j) current))
            [neuron..<length (biases l)])"
  using assms
proof (induction l current neuron lin rule: neuron_loop.induct)
  case (1 l current neuron lin)
  show ?case
  proof (cases "neuron < length (biases l)")
    case True
    then have get: "js_get (weights l) neuron = Some (weights l ! neuron)"
      using 1 by (simp add: js_get_def rows_present_def)
    have upt: "[neuron..<length (biases l)] = neuron # [Suc neuron..<length (biases l)]"
      using True by (simp add: upt_conv_Cons)
    let ?v = "fround (dot_loop (weights l ! neuron) current 0 (biases l ! neuron))"
    have IH: "neuron_loop l current (Suc neuron) (lin[neuron := ?v]) =
       Inr (take (Suc neuron) (lin[neuron := ?v]) @
          map (\<lambda>j. fround (weighted_sum (biases l ! j) (weights l ! j) current))
            [Suc neuron..<length (biases l)])"
      using 1 True get by simp
    have tk: "take (Suc neuron) (lin[neuron := ?v]) = take neuron lin @ [?v]"
      using True 1(4) by (simp add: take_Suc_conv_app_nth)
    show ?thesis
      using True get IH tk upt
      by (subst neuron_loop.simps) (simp add: dot_loop_weighted_sum)
  next
    case False
    with 1 show ?thesis by (subst neuron_loop.simps) simp
  qed
qed

lemma neuron_loop_dense:
  "rows_present l \<Longrightarrow>
   neuron_loop l current 0 (replicate (length (biases l)) (Num 0)) = Inr (dense l current)"
  by (simp add: neuron_loop_closed dense_def)

lemma neuron_loop_throws:
  assumes "\<not> rows_present l" and "neuron \<le> length (weights l)"
  shows "neuron_loop l current neuron lin =
     Inl (TypeError ''Cannot read properties of undefined (reading 'length')'')"
  using assms
proof (induction l current neuron lin rule: neuron_loop.induct)
  case (1 l current neuron lin)
  show ?case
  proof (cases "neuron < length (weights l)")
    case True
    then show ?thesis using 1
      by (subst neuron_loop.simps) (simp add: js_get_def rows_present_def)
  next
    case False
    then show ?thesis using 1
      by (subst neuron_loop.simps) (simp add: js_get_def rows_present_def)
  qed
qed

lemma layer_loop_throws:
  "\<not> (\<forall>l\<in>set ls. rows_present l) \<Longrightarrow>
   layer_loop ls acts pres current =
     Inl (TypeError ''Cannot read properties of undefined (reading 'length')'')"
proof (induction ls arbitrary: acts pres current)
  case Nil
  then show ?case by simp
next
  case (Cons l ls)
  show ?case
  proof (cases "rows_present l")
    case True
    then have "\<not> (\<forall>l\<in>set ls. rows_present l)" using Cons.prems by simp
    from Cons.IH[OF this] True show ?thesis
      by (simp add: neuron_loop_dense Let_def)
  next
    case False
    then show ?thesis by (simp add: neuron_loop_throws)
  qed
qed

lemma forward_throws:
  "\<not> (\<forall>l\<in>set (layers nw). rows_present l) \<Longrightarrow>
   forward nw pixels =
     Inl (TypeError ''Cannot read properties of undefined (reading 'length')'')"
  by (simp add: forward_def Let_def layer_loop_throws)

lemma length_layer_trace [simp]: "length (layer_trace ls current) = length ls"
  by (induction ls arbitrary: current) simp_all

lemma layer_loop_trace:
  "\<forall>l\<in>set ls. rows_present l \<Longrightarrow>
   layer_loop ls acts pres current =
     Inr (acts @ map snd (layer_trace ls current), pres @ map fst (layer_trace ls current))"
proof (induction ls arbitrary: acts pres current)
  case Nil
  then show ?case by simp
next
  case (Cons l ls)
  then show ?case by (simp add: neuron_loop_dense Let_def)
qed

lemma layer_trace_nth:
  "i < length ls \<Longrightarrow>
   fst (layer_trace ls current ! i) =
     dense (ls ! i) ((current # map snd (layer_trace ls current)) ! i) \<and>
   snd (layer_trace ls current ! i) = activate (ls ! i) (fst (layer_trace ls current ! i))"
proof (induction ls arbitrary: current i)
  case Nil
  then show ?case by simp
next
  case (Cons l ls)
  show ?case
  proof (cases i)
    case 0
    then show ?thesis by simp
  next
    case (Suc k)
    then have "k < length ls" using Cons.prems by simp
    from Cons.IH[OF this, of "activate l (dense l current)"] Suc show ?thesis by simp
  qed
qed

lemma forward_closed:
  assumes "\<forall>l\<in>set (layers nw). rows_present l"
  shows "\<exists>r. forward nw pixels = Inr r \<and>
     normalizedInput r = normalize_input nw pixels \<and>
     length (activations r) = Suc (length (layers nw)) \<and>
     length (preActivations r) = length (layers nw) \<and>
     activations r ! 0 = normalize_input nw pixels \<and>
     (\<forall>i<length (layers nw).
        preActivations r ! i = dense (layers nw ! i) (activations r ! i) \<and>
        activations r ! Suc i = activate (layers nw ! i) (preActivations r ! i))"
proof -
  let ?input = "normalize_input nw pixels"
  let ?tr = "layer_trace (layers nw) ?input"
  let ?r = "\<lparr> normalizedInput = ?input, activations = ?input # map snd ?tr,
              preActivations = map fst ?tr \<rparr>"
  have "forward nw pixels = Inr ?r"
    using layer_loop_trace[OF assms, of "[?input]" "[]" ?input]
    by (simp add: forward_def Let_def)
  moreover have "\<forall>i<length (layers nw).
        preActivations ?r ! i = dense (layers nw ! i) (activations ?r ! i) \<and>
        activations ?r ! Suc i = activate (layers nw ! i) (preActivations ?r ! i)"
    using layer_trace_nth[of _ "layers nw" ?input] by simp
  ultimately show ?thesis by simp
qed

text \<open>
  Where every product and every partial sum is a double, no addition and no multiplication
  rounds, and the accumulated sum is the sum of the reals.
\<close>

lemma foldl_add64_exact:
  assumes "length ws \<le> length cs"
    and "\<forall>k<length ws. is_double (ws ! k * cs ! k)"
    and "\<forall>k<length ws. is_double (b + (\<Sum>i<Suc k. ws ! i * cs ! i))"
  shows "n \<le> length ws \<Longrightarrow>
   foldl add64 (Num b)
     (map (\<lambda>k. mul64 (map Num ws ! k) (to_number (js_get (map Num cs) k))) [0..<n]) =
   Num (b + (\<Sum>k<n. ws ! k * cs ! k))"
proof (induction n)
  case 0
  then show ?case by simp
next
  case (Suc n)
  then have n: "n < length ws" by simp
  have p: "dround (Num (ws ! n * cs ! n)) = Num (ws ! n * cs ! n)"
    using assms(2) n by (simp add: is_double_def)
  have s: "dround (Num (b + (\<Sum>i<Suc n. ws ! i * cs ! i))) =
      Num (b + (\<Sum>i<Suc n. ws ! i * cs ! i))"
    using assms(3) n by (simp add: is_double_def)
  have "mul64 (map Num ws ! n) (to_number (js_get (map Num cs) n)) = Num (ws ! n * cs ! n)"
    using n assms(1) p by (simp add: mul64_def js_get_def)
  then show ?case
    using Suc n s by (simp add: add64_def add.assoc)
qed

lemma weighted_sum_exact:
  assumes "length ws \<le> length cs"
    and "\<forall>k<length ws. is_double (ws ! k * cs ! k)"
    and "\<forall>k<length ws. is_double (b + (\<Sum>i<Suc k. ws ! i * cs ! i))"
  shows "weighted_sum (Num b) (map Num ws) (map Num cs) =
     Num (b + (\<Sum>k<length ws. ws ! k * cs ! k))"
  using foldl_add64_exact[OF assms, of "length ws"] by (simp add: weighted_sum_def)

text \<open>A row longer than the input reads a missing source, and the sum is \<open>NaN\<close>.\<close>

lemma js_mul_NaN [simp]: "js_mul a NaN = NaN"
  by (cases a) simp_all

lemma js_add_NaN [simp]: "js_add a NaN = NaN"
  by (cases a) simp_all

lemma mul64_NaN [simp]: "mul64 a NaN = NaN"
  by (simp add: mul64_def)

lemma add64_NaN [simp]: "add64 a NaN = NaN" "add64 NaN a = NaN"
  by (simp_all add: add64_def)

lemma foldl_add64_NaN [simp]: "foldl add64 NaN xs = NaN"
  by (induction xs) simp_all

lemma weighted_sum_NaN:
  assumes "length current < length ws"
  shows "weighted_sum b ws current = NaN"
proof -
  let ?f = "\<lambda>k. mul64 (ws ! k) (to_number (js_get current k))"
  have "[0..<length ws] =
      [0..<length current] @ length current # [Suc (length current)..<length ws]"
    using assms by (metis le0 upt_add_eq_append upt_conv_Cons le_add_diff_inverse less_imp_le_nat add_0)
  then have "map ?f [0..<length ws] =
      map ?f [0..<length current] @ NaN # map ?f [Suc (length current)..<length ws]"
    by (simp add: js_get_def)
  then show ?thesis by (simp add: weighted_sum_def)
qed

lemma dense_nth:
  "j < length (biases l) \<Longrightarrow>
   dense l current ! j = fround (weighted_sum (biases l ! j) (weights l ! j) current)"
  by (simp add: dense_def)

lemma length_dense [simp]: "length (dense l current) = length (biases l)"
  by (simp add: dense_def)

subsection \<open>The example networks\<close>



lemma new_scenario: "MLPNetwork_new scenario_def = Inr scenario_net"
  by (simp add: MLPNetwork_new_def scenario_def_def scenario_net_def load_layer_def
      identity_layer_def loaded_def string_of_nat.simps upt_rec small_singles)

lemma new_mismatched: "MLPNetwork_new mismatched_def = Inr mismatched_net"
  by (simp add: MLPNetwork_new_def mismatched_def_def mismatched_net_def load_layer_def
      identity_layer_def loaded_def string_of_nat.simps upt_rec computeArchitecture_def js_get_def
      small_singles)

lemma new_defaulted: "MLPNetwork_new defaulted_def = Inr defaulted_net"
  by (simp add: MLPNetwork_new_def defaulted_def_def defaulted_net_def load_layer_def
      loaded_def string_of_nat.simps upt_rec computeArchitecture_def js_get_def small_singles)

lemma new_rowless: "MLPNetwork_new rowless_def = Inr rowless_net"
  by (simp add: MLPNetwork_new_def rowless_def_def rowless_net_def load_layer_def
      loaded_def string_of_nat.simps upt_rec computeArchitecture_def js_get_def)

lemma new_overflow: "MLPNetwork_new overflow_def = Inr overflow_net"
  by (simp add: MLPNetwork_new_def overflow_def_def overflow_net_def load_layer_def
      identity_layer_def loaded_def string_of_nat.simps upt_rec computeArchitecture_def
      js_get_def big_values)

lemmas run_simps = forward_def normalize_input_def layer_loop.simps neuron_loop.simps
  dot_loop.simps js_get_def activate_def relu_def js_sub_def js_gt_def Let_def loaded_def
  add64_def sub64_def mul64_def div64_def small_doubles small_singles

lemma forward_scenario:
  "forward scenario_net [Num 1, Num 0, Num 0, Num 0] =
     Inr \<lparr> normalizedInput = [Num 1, Num 0, Num 0, Num 0],
           activations = [[Num 1, Num 0, Num 0, Num 0], [Num 1, Num 0, Num 0], [Num 1, Num 1]],
           preActivations = [[Num 1, Num 0, Num 0], [Num 1, Num 1]] \<rparr>"
  by (simp add: scenario_net_def run_simps)

lemma forward_mismatched:
  "forward mismatched_net [Num 1] =
     Inr \<lparr> normalizedInput = [Num 1],
           activations = [[Num 1], [Num 1], [NaN]],
           preActivations = [[Num 1], [NaN]] \<rparr>"
  by (simp add: mismatched_net_def run_simps)

lemma forward_defaulted:
  "forward defaulted_net [Num 2] =
     Inr \<lparr> normalizedInput = [Num 2],
           activations = [[Num 2], [Num 2, Num 0], [Num 2, Num (- 2)]],
           preActivations = [[Num 2, Num (- 2)], [Num 2, Num (- 2)]] \<rparr>"
  by (simp add: defaulted_net_def run_simps)


lemma mismatched_has_mismatch: "dimension_mismatch mismatched_def"
  by (simp add: dimension_mismatch_def mismatched_def_def input_width_def identity_layer_def
      upt_rec)

lemma rows_present_scenario: "\<forall>l\<in>set (layers scenario_net). rows_present l"
  by (simp add: scenario_net_def rows_present_def loaded_def)

lemma rows_present_defaulted: "\<forall>l\<in>set (layers defaulted_net). rows_present l"
  by (simp add: defaulted_net_def rows_present_def loaded_def)

text \<open>Without a weight row for every bias the forward pass throws.\<close>

lemma forward_rowless_throws:
  "forward rowless_net [] =
     Inl (TypeError ''Cannot read properties of undefined (reading 'length')'')"
  by (simp add: rowless_net_def run_simps)

text \<open>A sum beyond single precision is stored as \<open>Infinity\<close>.\<close>

lemma forward_overflow:
  "forward overflow_net [Num 1, Num 1] =
     Inr \<lparr> normalizedInput = [Num 1, Num 1],
           activations = [[Num 1, Num 1], [PosInf]],
           preActivations = [[PosInf]] \<rparr>"
  by (simp add: overflow_net_def run_simps big_values)

subsection \<open>What the forward pass computes\<close>

text \<open>
  Claim C1, as the code has it. A non-empty layer list and a pixel vector of the length of
  the architecture's first entry are not enough for \<open>forward\<close> to return: it returns
  exactly when every layer has a weight row for each of its biases, for every pixel vector,
  and throws a \<open>TypeError\<close> otherwise. When it returns, its activation at index 0 is the
  normalised input, \<open>(pixels[i] - mean) / std\<close> computed in doubles and stored in single
  precision, which is also the field \<open>normalizedInput\<close>. For each layer in order the
  pre-activation has one entry per bias, entry \<open>j\<close> being the sum accumulated in doubles
  from the bias on, in the order of the sources, of the products of the weights of row \<open>j\<close>
  with the layer's input, stored in single precision; the next activation is the
  pre-activation under ReLU when the layer's activation is \<open>relu\<close> and the pre-activation
  itself otherwise. There are one more activation vectors than layers and as many
  pre-activation vectors as layers. ReLU sends a negative number to \<open>0\<close> and keeps a
  positive one. Where the row is no longer than the input and every product and every
  partial sum is a double, the accumulated sum is \<open>bias + \<Sum>\<^sub>k weight[k] * current[k]\<close>
  over the reals.
\<close>

theorem forward_computes_every_layer:
  "((\<forall>l\<in>set (layers nw). rows_present l) \<longrightarrow>
    (\<exists>r. forward nw pixels = Inr r \<and>
     normalizedInput r = activations r ! 0 \<and>
     activations r ! 0 =
       map (\<lambda>p. fround (div64 (sub64 p (mean (normalization nw))) (std (normalization nw))))
         pixels \<and>
     length (activations r) = length (layers nw) + 1 \<and>
     length (preActivations r) = length (layers nw) \<and>
     (\<forall>i<length (layers nw).
        length (preActivations r ! i) = length (biases (layers nw ! i)) \<and>
        (\<forall>j<length (biases (layers nw ! i)).
           preActivations r ! i ! j =
             fround (weighted_sum (biases (layers nw ! i) ! j) (weights (layers nw ! i) ! j)
               (activations r ! i))) \<and>
        activations r ! (i + 1) =
          (if activation (layers nw ! i) = ''relu'' then map relu (preActivations r ! i)
           else preActivations r ! i)))) \<and>
   (\<not> (\<forall>l\<in>set (layers nw). rows_present l) \<longrightarrow>
      forward nw pixels =
        Inl (TypeError ''Cannot read properties of undefined (reading 'length')'')) \<and>
   (\<forall>x. (js_lt x (Num 0) \<longrightarrow> relu x = Num 0) \<and> (js_gt x (Num 0) \<longrightarrow> relu x = x)) \<and>
   (\<forall>b ws cs.
      length ws \<le> length cs \<and>
      (\<forall>k<length ws. is_double (ws ! k * cs ! k)) \<and>
      (\<forall>k<length ws. is_double (b + (\<Sum>i<Suc k. ws ! i * cs ! i))) \<longrightarrow>
      weighted_sum (Num b) (map Num ws) (map Num cs) =
        Num (b + (\<Sum>k<length ws. ws ! k * cs ! k)))"
proof -
  have first: "\<exists>r. forward nw pixels = Inr r \<and>
     normalizedInput r = activations r ! 0 \<and>
     activations r ! 0 =
       map (\<lambda>p. fround (div64 (sub64 p (mean (normalization nw))) (std (normalization nw))))
         pixels \<and>
     length (activations r) = length (layers nw) + 1 \<and>
     length (preActivations r) = length (layers nw) \<and>
     (\<forall>i<length (layers nw).
        length (preActivations r ! i) = length (biases (layers nw ! i)) \<and>
        (\<forall>j<length (biases (layers nw ! i)).
           preActivations r ! i ! j =
             fround (weighted_sum (biases (layers nw ! i) ! j) (weights (layers nw ! i) ! j)
               (activations r ! i))) \<and>
        activations r ! (i + 1) =
          (if activation (layers nw ! i) = ''relu'' then map relu (preActivations r ! i)
           else preActivations r ! i))"
    if rows: "\<forall>l\<in>set (layers nw). rows_present l"
  proof -
    obtain r where r: "forward nw pixels = Inr r"
      and n: "normalizedInput r = normalize_input nw pixels"
      and la: "length (activations r) = Suc (length (layers nw))"
      and lp: "length (preActivations r) = length (layers nw)"
      and a0: "activations r ! 0 = normalize_input nw pixels"
      and st: "\<forall>i<length (layers nw).
          preActivations r ! i = dense (layers nw ! i) (activations r ! i) \<and>
          activations r ! Suc i = activate (layers nw ! i) (preActivations r ! i)"
      using forward_closed[OF rows, of pixels] by blast
    have layers_ok: "\<forall>i<length (layers nw).
        length (preActivations r ! i) = length (biases (layers nw ! i)) \<and>
        (\<forall>j<length (biases (layers nw ! i)).
           preActivations r ! i ! j =
             fround (weighted_sum (biases (layers nw ! i) ! j) (weights (layers nw ! i) ! j)
               (activations r ! i))) \<and>
        activations r ! (i + 1) =
          (if activation (layers nw ! i) = ''relu'' then map relu (preActivations r ! i)
           else preActivations r ! i)"
      using st by (simp add: dense_nth activate_def)
    show ?thesis
      using r n la lp a0 layers_ok by (intro exI[of _ r]) (simp add: normalize_input_def)
  qed
  have relu_neg: "\<forall>x. (js_lt x (Num 0) \<longrightarrow> relu x = Num 0) \<and> (js_gt x (Num 0) \<longrightarrow> relu x = x)"
  proof
    fix x show "(js_lt x (Num 0) \<longrightarrow> relu x = Num 0) \<and> (js_gt x (Num 0) \<longrightarrow> relu x = x)"
      by (cases x) (simp_all add: relu_def js_gt_def)
  qed
  have exact: "\<forall>b ws cs.
      length ws \<le> length cs \<and>
      (\<forall>k<length ws. is_double (ws ! k * cs ! k)) \<and>
      (\<forall>k<length ws. is_double (b + (\<Sum>i<Suc k. ws ! i * cs ! i))) \<longrightarrow>
      weighted_sum (Num b) (map Num ws) (map Num cs) =
        Num (b + (\<Sum>k<length ws. ws ! k * cs ! k))"
    using weighted_sum_exact by blast
  show ?thesis
    using first forward_throws[of nw pixels] relu_neg exact by blast
qed

theorem forward_computes_every_layer_witness:
  "forward scenario_net [Num 1, Num 0, Num 0, Num 0] =
     Inr \<lparr> normalizedInput = [Num 1, Num 0, Num 0, Num 0],
           activations = [[Num 1, Num 0, Num 0, Num 0], [Num 1, Num 0, Num 0], [Num 1, Num 1]],
           preActivations = [[Num 1, Num 0, Num 0], [Num 1, Num 1]] \<rparr> \<and>
   length (layers scenario_net) = 2 \<and>
   forward (scenario_net \<lparr> layers := [loaded ''dense_0'' ''relu'' [[Num 1]] [Num 0, Num 0]] \<rparr>)
       [Num 1] =
     Inl (TypeError ''Cannot read properties of undefined (reading 'length')'') \<and>
   relu (Num (- 2)) = Num 0 \<and> relu (Num 3) = Num 3 \<and>
   weighted_sum (Num 1) (map Num [2, 3]) (map Num [4, 5]) = Num 24"
proof -
  note T = forward_computes_every_layer[of scenario_net "[Num 1, Num 0, Num 0, Num 0]"]
  note re = T[THEN conjunct2, THEN conjunct2, THEN conjunct1, rule_format]
  note ex = T[THEN conjunct2, THEN conjunct2, THEN conjunct2, rule_format,
      of "[2, 3]" "[4, 5]" 1]
  note th = forward_computes_every_layer[
      of "scenario_net \<lparr> layers := [loaded ''dense_0'' ''relu'' [[Num 1]] [Num 0, Num 0]] \<rparr>"
        "[Num 1]", THEN conjunct2, THEN conjunct1, rule_format]
  have d: "is_double 8" "is_double 15" "is_double 9" "is_double 24"
    using is_double_int[of 8] is_double_int[of 15] is_double_int[of 9] is_double_int[of 24]
    by simp_all
  have s: "weighted_sum (Num 1) (map Num [2, 3]) (map Num [4, 5]) = Num 24"
    using ex d by (simp add: lessThan_Suc All_less_Suc)
  have t: "forward (scenario_net \<lparr> layers := [loaded ''dense_0'' ''relu'' [[Num 1]] [Num 0, Num 0]] \<rparr>)
       [Num 1] =
     Inl (TypeError ''Cannot read properties of undefined (reading 'length')'')"
    using th by (simp add: rows_present_def loaded_def)
  have "relu (Num (- 2)) = Num 0" "relu (Num 3) = Num 3"
    using re[of "Num (- 2)"] re[of "Num 3"] by (simp_all add: js_gt_def)
  then show ?thesis
    using s t forward_scenario by (simp add: scenario_net_def)
qed

text \<open>
  The claim as stated fails. \<open>rowless_def\<close> has one layer, with a bias and no weight row;
  it constructs, the network has a non-empty layer list, the empty pixel vector has the
  length of the architecture's first entry, and \<open>forward\<close> throws instead of computing the
  layer. And \<open>linear[j]\<close> is not always the sum of the claim: \<open>overflow_def\<close> constructs,
  on the pixels \<open>[1, 1]\<close> the bias plus the two products is \<open>2\<^sup>1\<^sup>2\<^sup>8\<close>, and the pre-activation
  that \<open>forward\<close> records is \<open>Infinity\<close>.
\<close>

theorem bias_without_weight_row_throws:
  "MLPNetwork_new rowless_def = Inr rowless_net \<and>
   layers rowless_net \<noteq> [] \<and>
   length ([] :: jsnum list) = hd (architecture rowless_net) \<and>
   forward rowless_net [] =
     Inl (TypeError ''Cannot read properties of undefined (reading 'length')'') \<and>
   MLPNetwork_new overflow_def = Inr overflow_net \<and>
   length [Num 1, Num 1 :: jsnum] = hd (architecture overflow_net) \<and>
   forward overflow_net [Num 1, Num 1] =
     Inr \<lparr> normalizedInput = [Num 1, Num 1],
           activations = [[Num 1, Num 1], [PosInf]],
           preActivations = [[PosInf]] \<rparr> \<and>
   js_add (js_add (Num 0) (js_mul (Num 170141183460469231731687303715884105728) (Num 1)))
       (js_mul (Num 170141183460469231731687303715884105728) (Num 1)) =
     Num 340282366920938463463374607431768211456"
  using new_rowless forward_rowless_throws new_overflow forward_overflow
  by (simp add: rowless_net_def overflow_net_def)

subsection \<open>Construction and dimension mismatches\<close>

text \<open>
  Claim C2, as the code has it. Construction fails exactly when the layer list is empty, with
  the error \<open>Network definition must contain layers.\<close>; a definition with at least one
  layer always constructs, and the network has, layer by layer, as many weight rows as the
  definition, each as long as the row of the definition, and as many biases, so a row of the
  wrong length is not detected at construction. At inference a neuron whose weight row is
  longer than the layer's input gets the pre-activation \<open>NaN\<close>.
\<close>

theorem construction_checks_only_emptiness:
  "(def_layers d = [] \<longrightarrow>
      MLPNetwork_new d = Inl (Error ''Network definition must contain layers.'')) \<and>
   (def_layers d \<noteq> [] \<longrightarrow>
      (\<exists>nw. MLPNetwork_new d = Inr nw \<and>
         length (layers nw) = length (def_layers d) \<and>
         (\<forall>i<length (def_layers d).
            map length (weights (layers nw ! i)) = map length (def_weights (def_layers d ! i)) \<and>
            length (biases (layers nw ! i)) = length (def_biases (def_layers d ! i))))) \<and>
   (rows_present l \<and> j < length (biases l) \<and> length current < length (weights l ! j) \<longrightarrow>
      (\<exists>lin. neuron_loop l current 0 (replicate (length (biases l)) (Num 0)) = Inr lin \<and>
         lin ! j = NaN))"
proof -
  have built: "def_layers d \<noteq> [] \<longrightarrow>
      (\<exists>nw. MLPNetwork_new d = Inr nw \<and>
         length (layers nw) = length (def_layers d) \<and>
         (\<forall>i<length (def_layers d).
            map length (weights (layers nw ! i)) = map length (def_weights (def_layers d ! i)) \<and>
            length (biases (layers nw ! i)) = length (def_biases (def_layers d ! i))))"
    by (simp add: MLPNetwork_new_def load_layer_def comp_def)
  have "rows_present l \<and> j < length (biases l) \<and> length current < length (weights l ! j) \<longrightarrow>
      (\<exists>lin. neuron_loop l current 0 (replicate (length (biases l)) (Num 0)) = Inr lin \<and>
         lin ! j = NaN)"
    by (simp add: neuron_loop_dense dense_nth weighted_sum_NaN)
  with built show ?thesis
    by (simp add: MLPNetwork_new_def)
qed

theorem construction_checks_only_emptiness_witness:
  "MLPNetwork_new empty_def = Inl (Error ''Network definition must contain layers.'') \<and>
   (\<exists>nw. MLPNetwork_new mismatched_def = Inr nw \<and>
      length (layers nw) = 2 \<and>
      map length (weights (layers nw ! 0)) = [1] \<and> length (biases (layers nw ! 0)) = 1 \<and>
      map length (weights (layers nw ! 1)) = [2] \<and> length (biases (layers nw ! 1)) = 1) \<and>
   (\<exists>lin. neuron_loop (loaded ''dense_1'' ''identity'' [[Num 1, Num 1]] [Num 0]) [Num 1] 0
            [Num 0] = Inr lin \<and> lin ! 0 = NaN)"
proof -
  note E = construction_checks_only_emptiness[of empty_def
      "loaded ''dense_1'' ''identity'' [[Num 1, Num 1]] [Num 0]" 0 "[Num 1]"]
  note M = construction_checks_only_emptiness[of mismatched_def
      "loaded ''dense_1'' ''identity'' [[Num 1, Num 1]] [Num 0]" 0 "[Num 1]"]
  have e: "MLPNetwork_new empty_def = Inl (Error ''Network definition must contain layers.'')"
    using E[THEN conjunct1] by (simp add: empty_def_def)
  have n: "\<exists>lin. neuron_loop (loaded ''dense_1'' ''identity'' [[Num 1, Num 1]] [Num 0]) [Num 1] 0
            [Num 0] = Inr lin \<and> lin ! 0 = NaN"
    using E[THEN conjunct2, THEN conjunct2] by (simp add: loaded_def rows_present_def)
  obtain nw where nw: "MLPNetwork_new mismatched_def = Inr nw"
    and len: "length (layers nw) = length (def_layers mismatched_def)"
    and st: "\<forall>i<length (def_layers mismatched_def).
            map length (weights (layers nw ! i)) =
              map length (def_weights (def_layers mismatched_def ! i)) \<and>
            length (biases (layers nw ! i)) = length (def_biases (def_layers mismatched_def ! i))"
    using M[THEN conjunct2, THEN conjunct1] by (auto simp add: mismatched_def_def)
  have "length (layers nw) = 2 \<and>
      map length (weights (layers nw ! 0)) = [1] \<and> length (biases (layers nw ! 0)) = 1 \<and>
      map length (weights (layers nw ! 1)) = [2] \<and> length (biases (layers nw ! 1)) = 1"
    using len st[rule_format, of 0] st[rule_format, of 1]
    by (simp add: mismatched_def_def identity_layer_def)
  with nw have "\<exists>nw. MLPNetwork_new mismatched_def = Inr nw \<and>
      length (layers nw) = 2 \<and>
      map length (weights (layers nw ! 0)) = [1] \<and> length (biases (layers nw ! 0)) = 1 \<and>
      map length (weights (layers nw ! 1)) = [2] \<and> length (biases (layers nw ! 1)) = 1"
    by (intro exI[of _ nw]) simp
  with e n show ?thesis by simp
qed

text \<open>
  The claim as stated fails: \<open>mismatched_def\<close> has a dimension mismatch, it constructs, and
  the forward pass runs on the network and returns \<open>NaN\<close> as the last pre-activation.
\<close>

theorem mismatch_reaches_forward:
  "dimension_mismatch mismatched_def \<and>
   MLPNetwork_new mismatched_def = Inr mismatched_net \<and>
   forward mismatched_net [Num 1] =
     Inr \<lparr> normalizedInput = [Num 1],
           activations = [[Num 1], [Num 1], [NaN]],
           preActivations = [[Num 1], [NaN]] \<rparr>"
  using mismatched_has_mismatch new_mismatched forward_mismatched by simp

subsection \<open>Activation names\<close>

text \<open>
  Claim C9. No activation name is rejected at construction: every definition with a layer
  constructs. The loaded layer has the activation \<open>relu\<close> when the field is absent and the
  given string otherwise. Where every output neuron has a weight row, \<open>forward\<close> returns,
  and for every layer whose field is a string other than \<open>relu\<close> the activation vector is
  the pre-activation vector; with the field absent or \<open>relu\<close> it is the pre-activation
  under ReLU.
\<close>

theorem unknown_activation_is_identity:
  assumes "def_layers d \<noteq> []"
    and "\<forall>l\<in>set (def_layers d). length (def_biases l) \<le> length (def_weights l)"
  shows "\<exists>nw r. MLPNetwork_new d = Inr nw \<and> forward nw pixels = Inr r \<and>
     length (layers nw) = length (def_layers d) \<and>
     (\<forall>i<length (def_layers d).
        (case def_activation (def_layers d ! i) of
           None \<Rightarrow> activation (layers nw ! i) = ''relu'' \<and>
                   activations r ! (i + 1) = map relu (preActivations r ! i)
         | Some s \<Rightarrow> activation (layers nw ! i) = s \<and>
                   (if s = ''relu'' then activations r ! (i + 1) = map relu (preActivations r ! i)
                    else activations r ! (i + 1) = preActivations r ! i)))"
proof -
  let ?ls = "map (\<lambda>(l, index). load_layer l index)
               (zip (def_layers d) [0..<length (def_layers d)])"
  obtain nw where nw: "MLPNetwork_new d = Inr nw" and ls: "layers nw = ?ls"
    using assms(1) by (simp add: MLPNetwork_new_def)
  have len: "length (layers nw) = length (def_layers d)"
    using ls by simp
  have nth: "layers nw ! i = load_layer (def_layers d ! i) i" if "i < length (def_layers d)" for i
    using that ls by simp
  have "\<forall>l\<in>set (layers nw). rows_present l"
  proof
    fix l assume "l \<in> set (layers nw)"
    then obtain i where i: "i < length (def_layers d)" and l: "l = layers nw ! i"
      using len by (metis in_set_conv_nth)
    have "def_layers d ! i \<in> set (def_layers d)" using i by simp
    then show "rows_present l"
      using assms(2) l nth[OF i] by (simp add: rows_present_def load_layer_def)
  qed
  from forward_closed[OF this, of pixels]
  obtain r where r: "forward nw pixels = Inr r"
    and st: "\<forall>i<length (layers nw).
        activations r ! Suc i = activate (layers nw ! i) (preActivations r ! i)"
    by blast
  have "\<forall>i<length (def_layers d).
        (case def_activation (def_layers d ! i) of
           None \<Rightarrow> activation (layers nw ! i) = ''relu'' \<and>
                   activations r ! (i + 1) = map relu (preActivations r ! i)
         | Some s \<Rightarrow> activation (layers nw ! i) = s \<and>
                   (if s = ''relu'' then activations r ! (i + 1) = map relu (preActivations r ! i)
                    else activations r ! (i + 1) = preActivations r ! i))"
  proof (intro allI impI)
    fix i assume i: "i < length (def_layers d)"
    have a: "activations r ! Suc i = activate (layers nw ! i) (preActivations r ! i)"
      using st i len by simp
    show "case def_activation (def_layers d ! i) of
           None \<Rightarrow> activation (layers nw ! i) = ''relu'' \<and>
                   activations r ! (i + 1) = map relu (preActivations r ! i)
         | Some s \<Rightarrow> activation (layers nw ! i) = s \<and>
                   (if s = ''relu'' then activations r ! (i + 1) = map relu (preActivations r ! i)
                    else activations r ! (i + 1) = preActivations r ! i)"
      using a nth[OF i] by (simp add: activate_def load_layer_def split: option.split)
  qed
  with nw r len show ?thesis by blast
qed

theorem unknown_activation_is_identity_witness:
  "MLPNetwork_new defaulted_def = Inr defaulted_net \<and>
   map activation (layers defaulted_net) = [''relu'', ''Relu''] \<and>
   forward defaulted_net [Num 2] =
     Inr \<lparr> normalizedInput = [Num 2],
           activations = [[Num 2], [Num 2, Num 0], [Num 2, Num (- 2)]],
           preActivations = [[Num 2, Num (- 2)], [Num 2, Num (- 2)]] \<rparr> \<and>
   (\<exists>nw r. MLPNetwork_new defaulted_def = Inr nw \<and> forward nw [Num 2] = Inr r \<and>
      activations r ! 1 = map relu (preActivations r ! 0) \<and>
      activations r ! 2 = preActivations r ! 1)"
proof -
  have hyp: "def_layers defaulted_def \<noteq> [] \<and>
      (\<forall>l\<in>set (def_layers defaulted_def). length (def_biases l) \<le> length (def_weights l))"
    by (simp add: defaulted_def_def)
  from unknown_activation_is_identity[of defaulted_def "[Num 2]"] hyp
  obtain nw r where nw: "MLPNetwork_new defaulted_def = Inr nw"
    and r: "forward nw [Num 2] = Inr r"
    and st: "\<forall>i<length (def_layers defaulted_def).
        (case def_activation (def_layers defaulted_def ! i) of
           None \<Rightarrow> activation (layers nw ! i) = ''relu'' \<and>
                   activations r ! (i + 1) = map relu (preActivations r ! i)
         | Some s \<Rightarrow> activation (layers nw ! i) = s \<and>
                   (if s = ''relu'' then activations r ! (i + 1) = map relu (preActivations r ! i)
                    else activations r ! (i + 1) = preActivations r ! i))"
    by blast
  have a1: "activations r ! 1 = map relu (preActivations r ! 0)"
    using st[rule_format, of 0] by (simp add: defaulted_def_def)
  have "activations r ! (1 + 1) = preActivations r ! 1"
    using st[rule_format, of 1] by (simp add: defaulted_def_def)
  then have a2: "activations r ! 2 = preActivations r ! 1"
    by (simp add: numeral_2_eq_2)
  have "\<exists>nw r. MLPNetwork_new defaulted_def = Inr nw \<and> forward nw [Num 2] = Inr r \<and>
      activations r ! 1 = map relu (preActivations r ! 0) \<and>
      activations r ! 2 = preActivations r ! 1"
    using nw r a1 a2 by blast
  then show ?thesis
    using new_defaulted forward_defaulted by (simp add: defaulted_net_def loaded_def)
qed

section \<open>Selection of the rendered connections\<close>


lemma candidate_loop_fst:
  "fst (candidate_loop row target source candidates m) =
     candidates @ map (make_candidate row target)
       (filter (\<lambda>k. js_isFinite (row ! k)) [source..<length row])"
proof (induction row target source candidates m rule: candidate_loop.induct)
  case (1 row target source candidates m)
  show ?case
  proof (cases "source < length row")
    case True
    then have upt: "[source..<length row] = source # [Suc source..<length row]"
      by (simp add: upt_conv_Cons)
    show ?thesis
    proof (cases "js_isFinite (row ! source)")
      case fin: True
      with True 1(2)[OF True refl _ refl] upt show ?thesis
        by (subst candidate_loop.simps) (simp add: Let_def make_candidate_def)
    next
      case nfin: False
      with True 1(1)[OF True refl] upt show ?thesis
        by (subst candidate_loop.simps) (simp add: Let_def)
    qed
  next
    case False
    then show ?thesis by (subst candidate_loop.simps) simp
  qed
qed

lemma candidate_loop_finite_candidates:
  "fst (candidate_loop row target 0 [] m) = finite_candidates row target"
  by (simp add: candidate_loop_fst finite_candidates_def)

lemma target_loop_fst:
  "fst (target_loop limit ws target selected m) =
     selected @ concat (map (\<lambda>t. take_top limit (finite_candidates (ws ! t) t))
                          [target..<length ws])"
proof (induction limit ws target selected m rule: target_loop.induct)
  case (1 limit ws target selected m)
  show ?case
  proof (cases "target < length ws")
    case True
    then have upt: "[target..<length ws] = target # [Suc target..<length ws]"
      by (simp add: upt_conv_Cons)
    obtain cands m' where c: "candidate_loop (ws ! target) target 0 [] m = (cands, m')"
      by (cases "candidate_loop (ws ! target) target 0 [] m")
    then have cands: "cands = finite_candidates (ws ! target) target"
      using candidate_loop_finite_candidates[of "ws ! target" target m] by simp
    from 1[OF True c[symmetric]] c cands upt True show ?thesis
      by (subst target_loop.simps) simp
  next
    case False
    then show ?thesis by (subst target_loop.simps) simp
  qed
qed

lemma take_top_take:
  "take_top limit cands = map to_connection (take limit (js_sort by_magnitude cands))"
proof -
  have "map (\<lambda>i. f (xs ! i)) [0..<min n (length xs)] = map f (take n xs)" for f :: "candidate \<Rightarrow> connection" and xs n
    by (rule nth_equalityI) simp_all
  then show ?thesis by (simp add: take_top_def Let_def)
qed

lemma set_js_insert [simp]: "set (js_insert cmp a bs) = insert a (set bs)"
  by (induction bs) auto

lemma length_js_insert [simp]: "length (js_insert cmp a bs) = Suc (length bs)"
  by (induction bs) auto

lemma set_js_sort [simp]: "set (js_sort cmp xs) = set xs"
  by (induction xs) (simp_all add: js_sort_def)

lemma length_js_sort [simp]: "length (js_sort cmp xs) = length xs"
  by (induction xs) (simp_all add: js_sort_def)


lemma js_lt_irrefl [simp]: "\<not> js_lt a a"
  by (cases a) simp_all

lemma js_isFinite_Num: "js_isFinite a \<Longrightarrow> \<exists>x. a = Num x"
  by (cases a) simp_all

lemma js_insert_sorted:
  assumes "sorted_wrt candidate_precedes bs"
    and "finite_magnitude a" and "\<forall>b\<in>set bs. finite_magnitude b"
    and "\<forall>b\<in>set bs. sourceIndex a < sourceIndex b"
  shows "sorted_wrt candidate_precedes (js_insert by_magnitude a bs)"
  using assms
proof (induction bs)
  case Nil
  then show ?case by simp
next
  case (Cons b bs)
  obtain x where x: "magnitude a = Num x"
    using Cons.prems(2) js_isFinite_Num by (auto simp: finite_magnitude_def)
  obtain y where y: "magnitude b = Num y"
    using Cons.prems(3) js_isFinite_Num by (auto simp: finite_magnitude_def)
  show ?case
  proof (cases "js_gt (by_magnitude a b) (Num 0)")
    case True
    then have "x < y" using x y by (simp add: by_magnitude_def js_sub_def js_gt_def)
    then have "candidate_precedes b a"
      using x y by (simp add: candidate_precedes_def precedes_def js_gt_def)
    moreover have "sorted_wrt candidate_precedes (js_insert by_magnitude a bs)"
      using Cons by simp
    ultimately show ?thesis using True Cons.prems(1) by simp
  next
    case False
    then have yx: "y \<le> x" using x y by (simp add: by_magnitude_def js_sub_def js_gt_def)
    have "candidate_precedes a c" if c: "c \<in> set (b # bs)" for c
    proof -
      obtain z where z: "magnitude c = Num z"
        using Cons.prems(3) c js_isFinite_Num by (auto simp: finite_magnitude_def)
      have "z \<le> y"
      proof (cases "c = b")
        case True
        then show ?thesis using y z by simp
      next
        case False
        then have "candidate_precedes b c" using c Cons.prems(1) by auto
        then show ?thesis using y z by (auto simp: candidate_precedes_def precedes_def js_gt_def)
      qed
      moreover have "sourceIndex a < sourceIndex c" using Cons.prems(4) c by blast
      ultimately show ?thesis
        using yx x z by (auto simp: candidate_precedes_def precedes_def js_gt_def)
    qed
    then show ?thesis using False Cons.prems(1) by simp
  qed
qed

lemma js_sort_sorted:
  assumes "\<forall>c\<in>set cs. finite_magnitude c" and "sorted_wrt (<) (map sourceIndex cs)"
  shows "sorted_wrt candidate_precedes (js_sort by_magnitude cs)"
  using assms
proof (induction cs)
  case Nil
  then show ?case by (simp add: js_sort_def)
next
  case (Cons c cs)
  have "sorted_wrt candidate_precedes (js_sort by_magnitude cs)"
    using Cons by simp
  then have "sorted_wrt candidate_precedes (js_insert by_magnitude c (js_sort by_magnitude cs))"
    using Cons.prems by (intro js_insert_sorted) auto
  then show ?case by (simp add: js_sort_def)
qed

lemma finite_candidates_finite: "\<forall>c\<in>set (finite_candidates row t). finite_magnitude c"
proof -
  have "js_isFinite a \<Longrightarrow> js_isFinite (js_abs a)" for a by (cases a) simp_all
  then show ?thesis
    by (auto simp: finite_candidates_def finite_magnitude_def make_candidate_def)
qed

lemma finite_candidates_sources:
  "map sourceIndex (finite_candidates row t) = filter (\<lambda>k. js_isFinite (row ! k)) [0..<length row]"
  by (simp add: finite_candidates_def make_candidate_def comp_def)

lemma finite_candidates_increasing:
  "sorted_wrt (<) (map sourceIndex (finite_candidates row t))"
  unfolding finite_candidates_sources
  by (rule sorted_wrt_filter) (simp add: sorted_wrt_upt)

lemma sorted_finite_candidates:
  "sorted_wrt candidate_precedes (js_sort by_magnitude (finite_candidates row t))"
  by (rule js_sort_sorted[OF finite_candidates_finite finite_candidates_increasing])


lemma finite_candidates_fields:
  assumes "c \<in> set (finite_candidates row t)"
  shows "magnitude c = js_abs (weight c) \<and> targetIndex c = t \<and> sourceIndex c < length row \<and>
     weight c = row ! sourceIndex c \<and> js_isFinite (weight c)"
  using assms by (auto simp: finite_candidates_def make_candidate_def)

lemma take_top_target:
  "e \<in> set (take_top limit (finite_candidates row t)) \<Longrightarrow> targetIndex e = t"
  by (auto simp: take_top_take to_connection_def
      dest!: in_set_takeD finite_candidates_fields)

lemma concat_single:
  "t < n \<Longrightarrow> concat (map (\<lambda>t'. if t' = t then xs else []) [0..<n]) = xs"
proof (induction n)
  case 0
  then show ?case by simp
next
  case (Suc n)
  show ?case
  proof (cases "t = n")
    case True
    have "concat (map (\<lambda>t'. if t' = n then xs else []) [0..<n]) = []"
      by simp
    then show ?thesis using True by simp
  next
    case False
    then show ?thesis using Suc by simp
  qed
qed

lemma edges_of_target_eq:
  assumes "t < length (weights l)"
  shows "edges_of_target limit l t = take_top limit (finite_candidates (weights l ! t) t)"
proof -
  let ?f = "\<lambda>t'. take_top limit (finite_candidates (weights l ! t') t')"
  have "filter (\<lambda>e. targetIndex e = t) (?f t') = (if t' = t then ?f t else [])" for t'
    using take_top_target[of _ limit "weights l ! t'" t']
    by (auto simp: filter_empty_conv filter_id_conv)
  then have "edges_of_target limit l t =
      concat (map (\<lambda>t'. if t' = t then ?f t else []) [0..<length (weights l)])"
    by (simp add: edges_of_target_def findImportantConnections_def target_loop_fst
        filter_concat comp_def)
  then show ?thesis using concat_single[OF assms] by simp
qed

lemma selected_targets:
  "e \<in> set (fst (findImportantConnections limit l)) \<Longrightarrow> targetIndex e < length (weights l)"
  using take_top_target
  by (auto simp: findImportantConnections_def target_loop_fst)

lemma length_edges_of_target:
  assumes "t < length (weights l)"
  shows "length (edges_of_target limit l t) =
     min limit (length (filter js_isFinite (weights l ! t)))"
proof -
  have "length (filter (\<lambda>k. js_isFinite (row ! k)) [0..<length row]) =
      length (filter js_isFinite row)" for row :: "jsnum list"
  proof -
    have "filter js_isFinite (map ((!) row) [0..<length row]) =
        map ((!) row) (filter (\<lambda>k. js_isFinite (row ! k)) [0..<length row])"
      by (simp add: filter_map comp_def)
    then have "length (filter js_isFinite (map ((!) row) [0..<length row])) =
        length (filter (\<lambda>k. js_isFinite (row ! k)) [0..<length row])"
      by simp
    then show ?thesis by (simp add: map_nth)
  qed
  then show ?thesis
    by (simp add: edges_of_target_eq[OF assms] take_top_take finite_candidates_def min.commute)
qed

text \<open>
  Claim C3. For every layer, limit and target neuron, the selected edges of the target are at
  most \<open>min(limit, inputWidth)\<close>, \<open>inputWidth\<close> being the length of the target's weight
  row. Every one of them carries a finite weight of the row, at its column. Its magnitude is
  at least the magnitude of every finite weight of the row that was not selected, and where
  the two magnitudes are equal the selected edge has the smaller column. The edges are in
  the order of a stable descending sort: magnitudes decrease, and equal magnitudes come in
  column order. Selection is a total function, whatever the weights, and all its edges end
  in a target of the layer.
\<close>

theorem per_target_top_k:
  assumes "target < length (weights l)"
  shows "length (edges_of_target limit l target) \<le> min limit (length (weights l ! target)) \<and>
     (\<forall>e\<in>set (edges_of_target limit l target).
        sourceIndex e < length (weights l ! target) \<and>
        weight e = weights l ! target ! sourceIndex e \<and> js_isFinite (weight e)) \<and>
     (\<forall>e\<in>set (edges_of_target limit l target). \<forall>k<length (weights l ! target).
        js_isFinite (weights l ! target ! k) \<and>
        k \<notin> sourceIndex ` set (edges_of_target limit l target) \<longrightarrow>
          js_ge (js_abs (weight e)) (js_abs (weights l ! target ! k)) \<and>
          (js_abs (weight e) = js_abs (weights l ! target ! k) \<longrightarrow> sourceIndex e < k)) \<and>
     sorted_wrt edge_precedes (edges_of_target limit l target) \<and>
     (\<forall>e\<in>set (fst (findImportantConnections limit l)). targetIndex e < length (weights l))"
proof -
  let ?row = "weights l ! target"
  let ?C = "finite_candidates ?row target"
  let ?S = "js_sort by_magnitude ?C"
  let ?E = "edges_of_target limit l target"
  have E: "?E = map to_connection (take limit ?S)"
    by (simp add: edges_of_target_eq[OF assms] take_top_take)
  have fields: "magnitude c = js_abs (weight c) \<and> targetIndex c = target \<and>
      sourceIndex c < length ?row \<and> weight c = ?row ! sourceIndex c \<and> js_isFinite (weight c)"
    if "c \<in> set ?S" for c
  proof -
    from that have "c \<in> set ?C" by simp
    then show ?thesis by (rule finite_candidates_fields)
  qed
  have sorted: "sorted_wrt candidate_precedes ?S"
    by (rule sorted_finite_candidates)
  have "length (filter js_isFinite ?row) \<le> length ?row" by simp
  then have count: "length ?E \<le> min limit (length ?row)"
    unfolding length_edges_of_target[OF assms, of limit] by (simp add: min.coboundedI2)
  have members: "\<forall>e\<in>set ?E. sourceIndex e < length ?row \<and>
        weight e = ?row ! sourceIndex e \<and> js_isFinite (weight e)"
  proof
    fix e assume "e \<in> set ?E"
    then obtain c where c: "c \<in> set ?S" and ec: "e = to_connection c"
      using E by (auto dest: in_set_takeD)
    from fields[OF c] show "sourceIndex e < length ?row \<and>
        weight e = ?row ! sourceIndex e \<and> js_isFinite (weight e)"
      unfolding ec to_connection_def by auto
  qed
  have top: "\<forall>e\<in>set ?E. \<forall>k<length ?row.
        js_isFinite (?row ! k) \<and> k \<notin> sourceIndex ` set ?E \<longrightarrow>
          js_ge (js_abs (weight e)) (js_abs (?row ! k)) \<and>
          (js_abs (weight e) = js_abs (?row ! k) \<longrightarrow> sourceIndex e < k)"
  proof (intro ballI allI impI)
    fix e k
    assume e: "e \<in> set ?E" and k: "k < length ?row"
      and fk: "js_isFinite (?row ! k) \<and> k \<notin> sourceIndex ` set ?E"
    obtain c where c: "c \<in> set (take limit ?S)" and ec: "e = to_connection c"
      using e E by auto
    let ?ck = "make_candidate ?row target k"
    have "?ck \<in> set ?C"
      using k fk by (simp add: finite_candidates_def)
    moreover have split: "set ?S = set (take limit ?S) \<union> set (drop limit ?S)"
      by (metis append_take_drop_id set_append)
    ultimately have "?ck \<in> set (take limit ?S) \<union> set (drop limit ?S)" by simp
    moreover have "?ck \<notin> set (take limit ?S)"
    proof
      assume "?ck \<in> set (take limit ?S)"
      then have "to_connection ?ck \<in> set ?E" using E by simp
      then have "sourceIndex (to_connection ?ck) \<in> sourceIndex ` set ?E" by (rule imageI)
      then show False using fk by (simp add: to_connection_def make_candidate_def)
    qed
    ultimately have "?ck \<in> set (drop limit ?S)" by blast
    moreover have "sorted_wrt candidate_precedes (take limit ?S @ drop limit ?S)"
      using sorted by simp
    ultimately have "candidate_precedes c ?ck"
      using c unfolding sorted_wrt_append by blast
    moreover have "magnitude c = js_abs (weight c)"
      using fields c by (blast dest: in_set_takeD)
    ultimately have p: "precedes (js_abs (weight e)) (sourceIndex e) (js_abs (?row ! k)) k"
      using ec by (simp add: candidate_precedes_def to_connection_def make_candidate_def)
    have "js_eq (js_abs (?row ! k)) (js_abs (?row ! k))"
      using fk by (cases "?row ! k") simp_all
    then show "js_ge (js_abs (weight e)) (js_abs (?row ! k)) \<and>
          (js_abs (weight e) = js_abs (?row ! k) \<longrightarrow> sourceIndex e < k)"
      using p by (auto simp: precedes_def js_ge_def js_gt_def)
  qed
  have "sorted_wrt candidate_precedes (take limit ?S)"
    using sorted by (rule sorted_wrt_take)
  then have "sorted_wrt (\<lambda>a b. edge_precedes (to_connection a) (to_connection b)) (take limit ?S)"
  proof (rule sorted_wrt_mono_rel[rotated])
    fix a b assume "a \<in> set (take limit ?S)" "b \<in> set (take limit ?S)" "candidate_precedes a b"
    then show "edge_precedes (to_connection a) (to_connection b)"
      using fields[of a] fields[of b]
      by (auto simp: edge_precedes_def candidate_precedes_def to_connection_def dest!: in_set_takeD)
  qed
  then have order: "sorted_wrt edge_precedes ?E"
    by (simp add: E sorted_wrt_map)
  show ?thesis
    using count members top order selected_targets by blast
qed

subsection \<open>The selection on the examples\<close>

lemmas selection_simps = findImportantConnections_def target_loop.simps candidate_loop.simps
  take_top_def js_sort_def by_magnitude_def js_sub_def js_gt_def to_connection_def Let_def

lemma selection_tie_layer:
  "findImportantConnections 2 tie_layer =
     ([\<lparr> sourceIndex = 1, targetIndex = 0, weight = Num (- 3) \<rparr>,
       \<lparr> sourceIndex = 3, targetIndex = 0, weight = Num 3 \<rparr>,
       \<lparr> sourceIndex = 0, targetIndex = 1, weight = Num 5 \<rparr>,
       \<lparr> sourceIndex = 1, targetIndex = 1, weight = Num 0 \<rparr>], Num 5)"
  by (simp add: tie_layer_def selection_simps upt_rec)

lemma selection_gap_layer:
  "findImportantConnections 2 gap_layer =
     ([\<lparr> sourceIndex = 1, targetIndex = 0, weight = Num 1 \<rparr>], Num 1)"
  by (simp add: gap_layer_def selection_simps upt_rec)

theorem per_target_top_k_witness:
  "findImportantConnections 2 tie_layer =
     ([\<lparr> sourceIndex = 1, targetIndex = 0, weight = Num (- 3) \<rparr>,
       \<lparr> sourceIndex = 3, targetIndex = 0, weight = Num 3 \<rparr>,
       \<lparr> sourceIndex = 0, targetIndex = 1, weight = Num 5 \<rparr>,
       \<lparr> sourceIndex = 1, targetIndex = 1, weight = Num 0 \<rparr>], Num 5) \<and>
   edges_of_target 2 tie_layer 0 =
     [\<lparr> sourceIndex = 1, targetIndex = 0, weight = Num (- 3) \<rparr>,
      \<lparr> sourceIndex = 3, targetIndex = 0, weight = Num 3 \<rparr>] \<and>
   weights tie_layer ! 0 = [Num 1, Num (- 3), PosInf, Num 3, Num 2] \<and>
   length (edges_of_target 2 tie_layer 0) \<le> min 2 (length (weights tie_layer ! 0)) \<and>
   js_ge (js_abs (Num 3)) (js_abs (Num 2)) \<and>
   sorted_wrt edge_precedes (edges_of_target 2 tie_layer 0)"
proof -
  have t: "0 < length (weights tie_layer)"
    by (simp add: tie_layer_def)
  note T = per_target_top_k[OF t, of 2]
  have e: "edges_of_target 2 tie_layer 0 =
     [\<lparr> sourceIndex = 1, targetIndex = 0, weight = Num (- 3) \<rparr>,
      \<lparr> sourceIndex = 3, targetIndex = 0, weight = Num 3 \<rparr>]"
    by (simp add: edges_of_target_def selection_tie_layer)
  have w: "weights tie_layer ! 0 = [Num 1, Num (- 3), PosInf, Num 3, Num 2]"
    by (simp add: tie_layer_def)
  have "js_ge (js_abs (weight \<lparr> sourceIndex = 3, targetIndex = 0, weight = Num 3 \<rparr>))
      (js_abs (weights tie_layer ! 0 ! 4))"
    using T[THEN conjunct2, THEN conjunct2, THEN conjunct1, rule_format,
        of "\<lparr> sourceIndex = 3, targetIndex = 0, weight = Num 3 \<rparr>" 4]
    by (simp add: e w)
  then have "js_ge (js_abs (Num 3)) (js_abs (Num 2))"
    by (simp add: w)
  then show ?thesis
    using T e w selection_tie_layer by simp
qed

subsection \<open>How many edges a target gets\<close>

text \<open>
  Claim C5, as the code has it. A target neuron gets exactly \<open>min(limit, f)\<close> edges, \<open>f\<close>
  being the number of finite weights in its row; when every weight of the row is finite
  that is at least \<open>min(limit, inputWidth)\<close>. The edges of a target depend on its own row
  only, not on the rows of the other targets.
\<close>

theorem edges_per_target_count:
  assumes "target < length (weights l)"
  shows "length (edges_of_target limit l target) =
       min limit (length (filter js_isFinite (weights l ! target))) \<and>
     (list_all js_isFinite (weights l ! target) \<longrightarrow>
        min limit (length (weights l ! target)) \<le> length (edges_of_target limit l target)) \<and>
     (\<forall>l'. target < length (weights l') \<and> weights l' ! target = weights l ! target \<longrightarrow>
        edges_of_target limit l' target = edges_of_target limit l target)"
proof -
  have "filter js_isFinite (weights l ! target) = weights l ! target"
    if "list_all js_isFinite (weights l ! target)"
    using that by (simp add: list_all_iff)
  then show ?thesis
    using length_edges_of_target[OF assms, of limit]
    by (auto simp: edges_of_target_eq assms)
qed

theorem edges_per_target_count_witness:
  "length (edges_of_target 2 tie_layer 0) = 2 \<and>
   length (filter js_isFinite (weights tie_layer ! 0)) = 4 \<and>
   list_all js_isFinite (weights tie_layer ! 1) \<and>
   min 2 (length (weights tie_layer ! 1)) \<le> length (edges_of_target 2 tie_layer 1) \<and>
   edges_of_target 2 gap_layer 0 =
     edges_of_target 2 (gap_layer\<lparr> weights := [[PosInf, Num 1], [Num 7, Num 8]] \<rparr>) 0"
proof -
  have t0: "0 < length (weights tie_layer)" and t1: "1 < length (weights tie_layer)"
    and g: "0 < length (weights gap_layer)"
    by (simp_all add: tie_layer_def gap_layer_def)
  have r0: "length (filter js_isFinite (weights tie_layer ! 0)) = 4"
    and r1: "list_all js_isFinite (weights tie_layer ! 1)"
    by (simp_all add: tie_layer_def)
  have same: "0 < length (weights (gap_layer\<lparr> weights := [[PosInf, Num 1], [Num 7, Num 8]] \<rparr>)) \<and>
      weights (gap_layer\<lparr> weights := [[PosInf, Num 1], [Num 7, Num 8]] \<rparr>) ! 0 =
        weights gap_layer ! 0"
    by (simp add: gap_layer_def)
  show ?thesis
    using edges_per_target_count[OF t0, of 2, THEN conjunct1]
      edges_per_target_count[OF t1, of 2, THEN conjunct2, THEN conjunct1]
      edges_per_target_count[OF g, of 2, THEN conjunct2, THEN conjunct2, rule_format, OF same]
      r0 r1
    by simp
qed

text \<open>
  The claim as stated fails on \<open>gap_layer\<close>, whose only row has a weight that is not
  finite: with the limit 2 and two inputs the target gets one edge.
\<close>

theorem non_finite_weight_costs_an_edge:
  "weights gap_layer ! 0 = [PosInf, Num 1] \<and>
   edges_of_target 2 gap_layer 0 = [\<lparr> sourceIndex = 1, targetIndex = 0, weight = Num 1 \<rparr>] \<and>
   length (edges_of_target 2 gap_layer 0) < min 2 (length (weights gap_layer ! 0))"
proof -
  have "edges_of_target 2 gap_layer 0 = [\<lparr> sourceIndex = 1, targetIndex = 0, weight = Num 1 \<rparr>]"
    by (simp add: edges_of_target_def selection_gap_layer)
  moreover have "weights gap_layer ! 0 = [PosInf, Num 1]"
    by (simp add: gap_layer_def)
  ultimately show ?thesis by simp
qed

section \<open>Class probabilities\<close>

lemma js_sub_Num [simp]: "js_sub (Num x) (Num y) = Num (x - y)"
  by (simp add: js_sub_def)

lemma foldl_js_add_Num:
  "foldl js_add (Num a) (map (\<lambda>x. Num (f x)) xs) = Num (a + (\<Sum>x\<leftarrow>xs. f x))"
  by (induction xs arbitrary: a) (simp_all add: add.assoc)

lemma sum_list_div: "(\<Sum>x\<leftarrow>xs. f x / c) = (\<Sum>x\<leftarrow>xs. f x) / (c :: real)"
  by (induction xs) (simp_all add: add_divide_distrib)

lemma member_le_sum_list_real:
  "x \<in> set xs \<Longrightarrow> \<forall>y\<in>set xs. 0 \<le> f y \<Longrightarrow> f x \<le> (\<Sum>y\<leftarrow>xs. (f y :: real))"
proof (induction xs)
  case Nil
  then show ?case by simp
next
  case (Cons a xs)
  have nn: "0 \<le> (\<Sum>y\<leftarrow>xs. f y)"
    using Cons.prems(2) by (intro sum_list_nonneg) auto
  show ?case
  proof (cases "x = a")
    case True
    then show ?thesis using nn by simp
  next
    case False
    then have "f x \<le> (\<Sum>y\<leftarrow>xs. f y)" using Cons by simp
    moreover have "0 \<le> f a" using Cons.prems(2) by simp
    ultimately show ?thesis by simp
  qed
qed

lemma softmax_normalise_Num:
  assumes "(\<Sum>x\<leftarrow>xs. f x) \<noteq> 0"
  shows "softmax_normalise (map (\<lambda>x. Num (f x)) xs) =
     map (\<lambda>x. Num (f x / (\<Sum>u\<leftarrow>xs. f u))) xs"
  using assms by (simp add: softmax_normalise_def foldl_js_add_Num Let_def)

lemma softmax_stable_form: "vs \<noteq> [] \<Longrightarrow> softmax vs = softmax_normalise (exp_terms vs)"
  by (simp add: softmax_def exp_terms_def Let_def)

subsection \<open>The maximum of numbers below infinity\<close>

lemma js_max2_below:
  assumes "below_infinity a" and "below_infinity b"
  shows "below_infinity (js_max2 a b)" and "js_max2 a b = a \<or> js_max2 a b = b"
    and "\<not> js_lt (js_max2 a b) a" and "\<not> js_lt (js_max2 a b) b"
  using assms by (cases a; cases b; simp add: below_infinity_def)+

lemma js_ge_trans_below:
  assumes "\<not> js_lt c b" and "\<not> js_lt b a"
    and "below_infinity a" and "below_infinity b" and "below_infinity c"
  shows "\<not> js_lt c a"
  using assms by (cases a; cases b; cases c; simp add: below_infinity_def)

lemma foldl_js_max2_below:
  assumes "list_all below_infinity vs" and "below_infinity acc"
  shows "below_infinity (foldl js_max2 acc vs) \<and>
     (foldl js_max2 acc vs = acc \<or> foldl js_max2 acc vs \<in> set vs) \<and>
     \<not> js_lt (foldl js_max2 acc vs) acc \<and>
     (\<forall>v\<in>set vs. \<not> js_lt (foldl js_max2 acc vs) v)"
  using assms
proof (induction vs arbitrary: acc)
  case Nil
  then show ?case by simp
next
  case (Cons v vs)
  let ?a = "js_max2 acc v"
  let ?r = "foldl js_max2 ?a vs"
  have v: "below_infinity v" and vs: "list_all below_infinity vs"
    using Cons.prems(1) by simp_all
  note a = js_max2_below[OF Cons.prems(2) v]
  from Cons.IH[OF vs a(1)]
  have r: "below_infinity ?r" and mem: "?r = ?a \<or> ?r \<in> set vs"
    and ge: "\<not> js_lt ?r ?a" and ub: "\<forall>u\<in>set vs. \<not> js_lt ?r u"
    by simp_all
  have "\<not> js_lt ?r acc"
    using js_ge_trans_below[OF ge a(3) Cons.prems(2) a(1) r] .
  moreover have "\<not> js_lt ?r v"
    using js_ge_trans_below[OF ge a(4) v a(1) r] .
  moreover have "?r = acc \<or> ?r \<in> set (v # vs)"
    using mem a(2) by auto
  ultimately show ?case
    using r ub by simp
qed

lemma js_Math_max_domain:
  assumes "softmax_domain vs"
  shows "\<exists>m. js_Math_max vs = Num m \<and> Num m \<in> set vs \<and> (\<forall>v\<in>set vs. \<not> js_lt (Num m) v)"
proof -
  let ?M = "js_Math_max vs"
  have below: "list_all below_infinity vs"
    using assms by (simp add: softmax_domain_def)
  have "below_infinity NegInf" by (simp add: below_infinity_def)
  from foldl_js_max2_below[OF below this]
  have M: "below_infinity ?M" and mem: "?M = NegInf \<or> ?M \<in> set vs"
    and ub: "\<forall>v\<in>set vs. \<not> js_lt ?M v"
    by (simp_all add: js_Math_max_def)
  obtain v where v: "v \<in> set vs" and "js_isFinite v"
    using assms by (auto simp add: softmax_domain_def list_ex_iff)
  from \<open>js_isFinite v\<close> obtain x where x: "v = Num x" by (cases v) simp_all
  have "\<not> js_lt ?M (Num x)" using ub v x by auto
  then have "?M \<noteq> NegInf" by auto
  then obtain m where m: "?M = Num m"
    using M by (cases ?M) (simp_all add: below_infinity_def)
  then show ?thesis using mem ub by auto
qed

lemma js_Math_max_unique:
  assumes "list_all below_infinity vs" and "Num m \<in> set vs"
    and "\<forall>v\<in>set vs. \<not> js_lt (Num m) v"
  shows "js_Math_max vs = Num m"
proof -
  have "softmax_domain vs"
    using assms(1,2) by (auto simp add: softmax_domain_def list_ex_iff intro: bexI[of _ "Num m"])
  from js_Math_max_domain[OF this]
  obtain m' where m': "js_Math_max vs = Num m'" "Num m' \<in> set vs"
      "\<forall>v\<in>set vs. \<not> js_lt (Num m') v"
    by blast
  have "\<not> js_lt (Num m) (Num m')" "\<not> js_lt (Num m') (Num m)"
    using assms(2,3) m'(2,3) by blast+
  then have "m = m'" by simp
  then show ?thesis using m'(1) by simp
qed

subsection \<open>The exponentiated terms\<close>

lemma pow2_bounds: "pow2 (- 1075) < 1" "1 < pow2 1024"
  using pow2_strict_mono[of "- 1075" 0] pow2_strict_mono[of 0 1024] by (simp_all add: pow2_def)

lemma pow2_bounds_not [simp]: "\<not> pow2 1024 \<le> 1" "\<not> 1 < pow2 (- 1075)"
  using pow2_bounds by simp_all

lemma js_exp_nonpositive:
  "x \<le> 0 \<Longrightarrow> js_exp (Num x) = Num (if exp x < pow2 (- 1075) then 0 else exp x)"
  using pow2_bounds(2) by (simp add: not_le) (meson exp_le_one_iff le_less_trans less_imp_le not_le)

lemma js_exp_zero [simp]: "js_exp (Num 0) = Num 1"
  using pow2_bounds by (simp add: not_le not_less less_imp_le)

lemma term_below:
  assumes "below_infinity v" and "\<not> js_lt (Num m) v"
  shows "js_exp (js_sub v (Num m)) = Num (term_value m v)"
proof (cases v)
  case (Num x)
  then have "x - m \<le> 0" using assms(2) by simp
  then have "js_exp (Num (x - m)) = Num (if exp (x - m) < pow2 (- 1075) then 0 else exp (x - m))"
    by (rule js_exp_nonpositive)
  moreover have "js_sub v (Num m) = Num (x - m)" using Num by simp
  moreover have "term_value m v = (if exp (x - m) < pow2 (- 1075) then 0 else exp (x - m))"
    using Num by (simp add: term_value_def)
  ultimately show ?thesis by (simp only:)
next
  case NegInf
  then show ?thesis by (simp add: js_sub_def term_value_def)
qed (use assms in \<open>simp_all add: below_infinity_def\<close>)

lemma term_value_range:
  assumes "\<not> js_lt (Num m) v"
  shows "0 \<le> term_value m v \<and> term_value m v \<le> 1"
  using assms by (cases v) (simp_all add: term_value_def)

lemma term_value_max [simp]: "term_value m (Num m) = 1"
  using pow2_bounds by (simp add: term_value_def not_less less_imp_le)

lemma exp_terms_domain:
  assumes "list_all below_infinity vs" and "js_Math_max vs = Num m"
    and "\<forall>v\<in>set vs. \<not> js_lt (Num m) v"
  shows "exp_terms vs = map (\<lambda>v. Num (term_value m v)) vs"
  using assms by (simp add: exp_terms_def term_below list_all_iff)

lemma softmax_domain_closed:
  assumes "list_all below_infinity vs" and "js_Math_max vs = Num m" and "Num m \<in> set vs"
    and "\<forall>v\<in>set vs. \<not> js_lt (Num m) v"
  shows "1 \<le> (\<Sum>u\<leftarrow>vs. term_value m u)"
    and "softmax vs = map (\<lambda>v. Num (term_value m v / (\<Sum>u\<leftarrow>vs. term_value m u))) vs"
proof -
  have "term_value m (Num m) \<le> (\<Sum>u\<leftarrow>vs. term_value m u)"
    using assms(3,4) term_value_range by (intro member_le_sum_list_real) auto
  then show one: "1 \<le> (\<Sum>u\<leftarrow>vs. term_value m u)" by simp
  have "vs \<noteq> []" using assms(3) by auto
  then have "softmax vs = softmax_normalise (map (\<lambda>v. Num (term_value m v)) vs)"
    using exp_terms_domain[OF assms(1,2,4)] by (simp add: softmax_stable_form)
  also have "\<dots> = map (\<lambda>v. Num (term_value m v / (\<Sum>u\<leftarrow>vs. term_value m u))) vs"
    using one by (intro softmax_normalise_Num) simp
  finally show "softmax vs = map (\<lambda>v. Num (term_value m v / (\<Sum>u\<leftarrow>vs. term_value m u))) vs" .
qed

lemma softmax_domain_sum:
  assumes "1 \<le> (\<Sum>u\<leftarrow>vs. f u)"
  shows "foldl js_add (Num 0) (map (\<lambda>v. Num (f v / (\<Sum>u\<leftarrow>vs. f u))) vs) = Num 1"
proof -
  have "foldl js_add (Num 0) (map (\<lambda>v. Num (f v / (\<Sum>u\<leftarrow>vs. f u))) vs) =
      Num (0 + (\<Sum>v\<leftarrow>vs. f v / (\<Sum>u\<leftarrow>vs. f u)))"
    by (rule foldl_js_add_Num)
  also have "\<dots> = Num ((\<Sum>u\<leftarrow>vs. f u) / (\<Sum>u\<leftarrow>vs. f u))"
    by (simp only: sum_list_div add_0)
  finally show ?thesis using assms by simp
qed

subsection \<open>A constant added to every element\<close>

lemma shift_below:
  "below_infinity v \<Longrightarrow> below_infinity (js_add v (Num c))"
  by (cases v) (simp_all add: below_infinity_def)

lemma shift_order:
  "below_infinity v \<Longrightarrow> \<not> js_lt (Num m) v \<Longrightarrow> \<not> js_lt (Num (m + c)) (js_add v (Num c))"
  by (cases v) (simp_all add: below_infinity_def)

lemma shift_term:
  "below_infinity v \<Longrightarrow> js_sub (js_add v (Num c)) (Num (m + c)) = js_sub v (Num m)"
  by (cases v) (simp_all add: below_infinity_def js_sub_def)

lemma softmax_shift:
  assumes "softmax_domain vs"
  shows "softmax (map (\<lambda>v. js_add v (Num c)) vs) = softmax vs"
proof -
  let ?ws = "map (\<lambda>v. js_add v (Num c)) vs"
  have below: "list_all below_infinity vs"
    using assms by (simp add: softmax_domain_def)
  obtain m where m: "js_Math_max vs = Num m" "Num m \<in> set vs" "\<forall>v\<in>set vs. \<not> js_lt (Num m) v"
    using js_Math_max_domain[OF assms] by blast
  have ne: "vs \<noteq> []" using m(2) by auto
  have below': "list_all below_infinity ?ws"
    using below by (simp add: list_all_iff shift_below)
  have "js_add (Num m) (Num c) \<in> (\<lambda>v. js_add v (Num c)) ` set vs"
    using m(2) by (rule imageI)
  then have mem: "Num (m + c) \<in> set ?ws" by simp
  have ub: "\<forall>w\<in>set ?ws. \<not> js_lt (Num (m + c)) w"
    using below m(3) by (auto simp add: list_all_iff shift_order)
  have m': "js_Math_max ?ws = Num (m + c)"
    using js_Math_max_unique[OF below' mem ub] .
  have "exp_terms ?ws = exp_terms vs"
    using below by (simp add: exp_terms_def m' m(1) shift_term list_all_iff comp_def)
  then show ?thesis
    using ne by (simp add: softmax_stable_form)
qed

subsection \<open>Inputs that yield no probabilities\<close>

lemma js_max2_NaN_right [simp]: "js_max2 a NaN = NaN"
  by (cases a) simp_all

lemma foldl_js_max2_NaN [simp]: "foldl js_max2 NaN vs = NaN"
  by (induction vs) simp_all

lemma foldl_js_max2_has_NaN: "NaN \<in> set vs \<Longrightarrow> foldl js_max2 acc vs = NaN"
  by (induction vs arbitrary: acc) auto

lemma foldl_js_max2_PosInf: "NaN \<notin> set vs \<Longrightarrow> foldl js_max2 PosInf vs = PosInf"
proof (induction vs)
  case Nil
  then show ?case by simp
next
  case (Cons v vs)
  then show ?case by (cases v) simp_all
qed

lemma foldl_js_max2_has_PosInf:
  "PosInf \<in> set vs \<Longrightarrow> NaN \<notin> set vs \<Longrightarrow> acc \<noteq> NaN \<Longrightarrow> foldl js_max2 acc vs = PosInf"
proof (induction vs arbitrary: acc)
  case Nil
  then show ?case by simp
next
  case (Cons v vs)
  show ?case
  proof (cases "v = PosInf")
    case True
    then have "js_max2 acc v = PosInf" using Cons.prems(3) by (cases acc) simp_all
    then show ?thesis using Cons.prems(2) by (simp add: foldl_js_max2_PosInf)
  next
    case False
    have "js_max2 acc v \<noteq> NaN"
      using Cons.prems(2,3) by (cases acc; cases v) simp_all
    then show ?thesis using Cons False by simp
  qed
qed

lemma foldl_js_max2_all_NegInf: "set vs \<subseteq> {NegInf} \<Longrightarrow> foldl js_max2 NegInf vs = NegInf"
  by (induction vs) simp_all

lemma foldl_js_add_NaN [simp]: "foldl js_add NaN ts = NaN"
  by (induction ts) simp_all

lemma foldl_js_add_has_NaN: "NaN \<in> set ts \<Longrightarrow> foldl js_add acc ts = NaN"
  by (induction ts arbitrary: acc) auto

lemma js_div_NaN_right [simp]: "js_div a NaN = NaN"
  by (cases a) simp_all

lemma softmax_normalise_NaN:
  "NaN \<in> set ts \<Longrightarrow> softmax_normalise ts = map (\<lambda>_. NaN) ts"
  by (simp add: softmax_normalise_def Let_def foldl_js_add_has_NaN)

lemma exp_terms_outside:
  assumes "vs \<noteq> []" and "\<not> softmax_domain vs"
  shows "NaN \<in> set (exp_terms vs)"
proof -
  consider (nan) "NaN \<in> set vs" | (inf) "NaN \<notin> set vs" "PosInf \<in> set vs"
    | (neg) "NaN \<notin> set vs" "PosInf \<notin> set vs"
    by blast
  then show ?thesis
  proof cases
    case nan
    then have "js_Math_max vs = NaN"
      by (simp add: js_Math_max_def foldl_js_max2_has_NaN)
    then have "exp_terms vs = map (\<lambda>_. NaN) vs"
      by (simp add: exp_terms_def js_sub_def)
    then show ?thesis using assms(1) by (cases vs) simp_all
  next
    case inf
    then have "js_Math_max vs = PosInf"
      by (simp add: js_Math_max_def foldl_js_max2_has_PosInf)
    moreover have "js_exp (js_sub PosInf PosInf) = NaN"
      by (simp add: js_sub_def)
    ultimately show ?thesis
      using inf(2) by (auto simp add: exp_terms_def intro!: image_eqI[of _ _ PosInf])
  next
    case neg
    then have below: "list_all below_infinity vs"
      by (auto simp add: list_all_iff below_infinity_def)
    then have "\<not> list_ex js_isFinite vs"
      using assms(2) by (simp add: softmax_domain_def)
    then have all: "set vs \<subseteq> {NegInf}"
    proof -
      have "v = NegInf" if "v \<in> set vs" for v
      proof -
        have "v \<noteq> NaN" "v \<noteq> PosInf" "\<not> js_isFinite v"
          using that neg \<open>\<not> list_ex js_isFinite vs\<close> by (auto simp add: list_ex_iff)
        then show ?thesis by (cases v) simp_all
      qed
      then show ?thesis by auto
    qed
    then have "js_Math_max vs = NegInf"
      by (simp add: js_Math_max_def foldl_js_max2_all_NegInf)
    moreover have "js_exp (js_sub NegInf NegInf) = NaN"
      by (simp add: js_sub_def)
    moreover have "NegInf \<in> set vs"
      using all assms(1) by (cases vs) auto
    ultimately show ?thesis
      by (auto simp add: exp_terms_def intro!: image_eqI[of _ _ NegInf])
  qed
qed

lemma softmax_outside:
  assumes "vs \<noteq> []" and "\<not> softmax_domain vs"
  shows "softmax vs = map (\<lambda>_. NaN) vs"
  using softmax_normalise_NaN[OF exp_terms_outside[OF assms]] assms(1)
  by (simp add: softmax_stable_form exp_terms_def)

lemma total_never_zero:
  assumes "vs \<noteq> []"
  shows "\<not> js_eq (foldl js_add (Num 0) (exp_terms vs)) (Num 0)"
proof (cases "softmax_domain vs")
  case True
  then have below: "list_all below_infinity vs" by (simp add: softmax_domain_def)
  obtain m where m: "js_Math_max vs = Num m" "Num m \<in> set vs" "\<forall>v\<in>set vs. \<not> js_lt (Num m) v"
    using js_Math_max_domain[OF True] by blast
  have "1 \<le> (\<Sum>u\<leftarrow>vs. term_value m u)"
    using softmax_domain_closed(1)[OF below m] .
  then show ?thesis
    by (simp add: exp_terms_domain[OF below m(1,3)] foldl_js_add_Num)
next
  case False
  then show ?thesis
    using exp_terms_outside[OF assms False] by (simp add: foldl_js_add_has_NaN)
qed

subsection \<open>Finite inputs without underflow\<close>

lemma softmax_real:
  assumes "xs \<noteq> []" and "\<forall>x\<in>set xs. pow2 (- 1075) \<le> exp (x - Max (set xs))"
  shows "softmax (map Num xs) = map (\<lambda>x. Num (exp x / (\<Sum>u\<leftarrow>xs. exp u))) xs"
proof -
  let ?m = "Max (set xs)"
  let ?S = "\<Sum>x\<leftarrow>xs. exp (x - ?m)"
  have below: "list_all below_infinity (map Num xs)"
    by (simp add: list_all_iff below_infinity_def)
  have mem: "Num ?m \<in> set (map Num xs)"
    using assms(1) Max_in[of "set xs"] by simp
  have ub: "\<forall>v\<in>set (map Num xs). \<not> js_lt (Num ?m) v"
    by (auto simp add: not_less)
  have M: "js_Math_max (map Num xs) = Num ?m"
    using js_Math_max_unique[OF below mem ub] .
  have tv: "term_value ?m (Num x) = exp (x - ?m)" if "x \<in> set xs" for x
    using that assms(2) by (auto simp add: term_value_def not_less[symmetric])
  have tvs: "map (\<lambda>x. term_value ?m (Num x)) xs = map (\<lambda>x. exp (x - ?m)) xs"
    using tv by simp
  have sums: "(\<Sum>u\<leftarrow>xs. term_value ?m (Num u)) = ?S"
    by (rule arg_cong[where f = sum_list, OF tvs])
  have S: "?S = (\<Sum>u\<leftarrow>xs. exp u) / exp ?m"
    by (simp only: exp_diff sum_list_div)
  have "softmax (map Num xs) =
      map (\<lambda>v. Num (term_value ?m v / (\<Sum>u\<leftarrow>map Num xs. term_value ?m u))) (map Num xs)"
    using softmax_domain_closed(2)[OF below M mem ub] .
  also have "\<dots> = map (\<lambda>x. Num (term_value ?m (Num x) / (\<Sum>u\<leftarrow>xs. term_value ?m (Num u)))) xs"
    by (simp add: comp_def)
  also have "\<dots> = map (\<lambda>x. Num (exp (x - ?m) / ?S)) xs"
    unfolding sums using tv by simp
  also have "\<dots> = map (\<lambda>x. Num (exp x / (\<Sum>u\<leftarrow>xs. exp u))) xs"
    unfolding S by (simp add: exp_diff)
  finally show ?thesis .
qed

subsection \<open>Concrete cases\<close>

lemma exp_minus_one_kept: "pow2 (- 1075) \<le> exp (- 1)"
proof -
  have "pow2 (- 1075) \<le> pow2 (- 2)" by (rule pow2_mono) simp
  also have "\<dots> \<le> 1 / 3" by (simp add: pow2_def)
  also have "\<dots> \<le> 1 / exp 1"
    using exp_le by (intro divide_left_mono) simp_all
  also have "\<dots> = exp (- 1)" by (simp add: exp_minus inverse_eq_divide)
  finally show ?thesis .
qed

lemma exp_minus_2000_underflows: "exp (- 2000) < pow2 (- 1075)"
proof -
  have "(2 :: real) \<le> exp 1" using exp_ge_add_one_self[of 1] by simp
  then have "(2 :: real) ^ 2000 \<le> exp 1 ^ 2000" by (intro power_mono) simp_all
  also have "\<dots> = exp 2000" using exp_of_nat_mult[of 2000 "1 :: real"] by simp
  finally have "1 / exp 2000 \<le> 1 / (2 :: real) ^ 2000"
    by (intro divide_left_mono) simp_all
  then have "exp (- 2000) \<le> pow2 (- 2000)"
    by (simp add: exp_minus inverse_eq_divide pow2_def)
  also have "\<dots> < pow2 (- 1075)" by (rule pow2_strict_mono) simp
  finally show ?thesis .
qed

lemma softmax_minus_infinity: "softmax [NegInf, Num 0] = [Num 0, Num 1]"
  by (simp add: softmax_def js_Math_max_def softmax_normalise_def js_sub_def Let_def)

lemma softmax_underflow: "softmax [Num (- 2000), Num 0] = [Num 0, Num 1]"
  using exp_minus_2000_underflows
  by (simp add: softmax_def js_Math_max_def softmax_normalise_def Let_def)

lemma softmax_plus_infinity: "softmax [PosInf, Num 0] = [NaN, NaN]"
  by (simp add: softmax_def js_Math_max_def softmax_normalise_def js_sub_def Let_def)

lemma softmax_zero_one:
  "softmax [Num 0, Num 1] = [Num (1 / (1 + exp 1)), Num (exp 1 / (1 + exp 1))]"
  using softmax_real[of "[0, 1]"] exp_minus_one_kept pow2_bounds(1) by simp

lemma softmax_equal_pair: "softmax [Num x, Num x] = [Num (1 / 2), Num (1 / 2)]"
proof -
  have "exp x / (exp x + exp x) = 1 / 2"
    by (simp add: field_simps)
  then show ?thesis
    using softmax_real[of "[x, x]"] pow2_bounds(1) by simp
qed

subsection \<open>The claim\<close>

text \<open>
  Claim C4, as the code has it. On a vector whose elements are finite or \<open>-Infinity\<close>, one at
  least being finite, \<open>softmax\<close> returns as many numbers as it is given, each in \<open>[0, 1]\<close>,
  and with exact sums and quotients they add up to \<open>1\<close> (added from \<open>0\<close> in order, as the
  program adds). Adding a constant to every element does not change the result when none of
  the additions rounds. The function subtracts the greatest element before it exponentiates:
  the maximum is a finite element of the input, no element is greater, the term of the
  maximum is \<open>1\<close>, every exponentiated term is a number in \<open>[0, 1]\<close> (\<open>0\<close> for \<open>-Infinity\<close>
  and for an element so far below the maximum that \<^verbatim>\<open>Math.exp\<close> underflows), and the sum
  of the terms is at least \<open>1\<close>. On every other non-empty vector (one with a \<open>NaN\<close>, with an
  \<open>Infinity\<close>, or of \<open>-Infinity\<close> only) every value returned is \<open>NaN\<close>. On a non-empty vector
  the sum of the exponentiated terms is never \<open>0\<close>, so the guard against a zero sum, under
  which normalisation reports \<open>0\<close> for every probability, never decides. On finite numbers
  none of which underflows, the result is the softmax of the reals, \<open>exp x / \<Sum>\<^sub>u exp u\<close>.
\<close>

theorem softmax_properties:
  "(softmax_domain vs \<longrightarrow>
      length (softmax vs) = length vs \<and>
      (\<forall>p\<in>set (softmax vs). \<exists>q. p = Num q \<and> 0 \<le> q \<and> q \<le> 1) \<and>
      foldl js_add (Num 0) (softmax vs) = Num 1 \<and>
      ((\<forall>v\<in>set vs. add64 v (Num c) = js_add v (Num c)) \<longrightarrow>
         softmax (map (\<lambda>v. add64 v (Num c)) vs) = softmax vs) \<and>
      (\<exists>m. js_Math_max vs = Num m \<and> Num m \<in> set vs \<and> (\<forall>v\<in>set vs. \<not> js_lt (Num m) v) \<and>
           js_exp (js_sub (Num m) (js_Math_max vs)) = Num 1 \<and>
           softmax vs = map (\<lambda>v. Num (term_value m v / (\<Sum>u\<leftarrow>vs. term_value m u))) vs) \<and>
      (\<forall>t\<in>set (exp_terms vs). \<exists>e. t = Num e \<and> 0 \<le> e \<and> e \<le> 1) \<and>
      (\<exists>s. foldl js_add (Num 0) (exp_terms vs) = Num s \<and> 1 \<le> s)) \<and>
   (vs \<noteq> [] \<and> \<not> softmax_domain vs \<longrightarrow> softmax vs = map (\<lambda>_. NaN) vs) \<and>
   (vs \<noteq> [] \<longrightarrow>
      softmax vs = softmax_normalise (exp_terms vs) \<and>
      \<not> js_eq (foldl js_add (Num 0) (exp_terms vs)) (Num 0)) \<and>
   (xs \<noteq> [] \<and> (\<forall>x\<in>set xs. pow2 (- 1075) \<le> exp (x - Max (set xs))) \<longrightarrow>
      softmax (map Num xs) = map (\<lambda>x. Num (exp x / (\<Sum>u\<leftarrow>xs. exp u))) xs) \<and>
   (js_eq (foldl js_add (Num 0) exps) (Num 0) \<longrightarrow>
      softmax_normalise exps = map (\<lambda>_. Num 0) exps)"
proof -
  have inside: "length (softmax vs) = length vs \<and>
      (\<forall>p\<in>set (softmax vs). \<exists>q. p = Num q \<and> 0 \<le> q \<and> q \<le> 1) \<and>
      foldl js_add (Num 0) (softmax vs) = Num 1 \<and>
      ((\<forall>v\<in>set vs. add64 v (Num c) = js_add v (Num c)) \<longrightarrow>
         softmax (map (\<lambda>v. add64 v (Num c)) vs) = softmax vs) \<and>
      (\<exists>m. js_Math_max vs = Num m \<and> Num m \<in> set vs \<and> (\<forall>v\<in>set vs. \<not> js_lt (Num m) v) \<and>
           js_exp (js_sub (Num m) (js_Math_max vs)) = Num 1 \<and>
           softmax vs = map (\<lambda>v. Num (term_value m v / (\<Sum>u\<leftarrow>vs. term_value m u))) vs) \<and>
      (\<forall>t\<in>set (exp_terms vs). \<exists>e. t = Num e \<and> 0 \<le> e \<and> e \<le> 1) \<and>
      (\<exists>s. foldl js_add (Num 0) (exp_terms vs) = Num s \<and> 1 \<le> s)"
    if dom: "softmax_domain vs"
  proof -
    let ?S = "\<lambda>m. \<Sum>u\<leftarrow>vs. term_value m u"
    have below: "list_all below_infinity vs"
      using dom by (simp add: softmax_domain_def)
    obtain m where m: "js_Math_max vs = Num m" "Num m \<in> set vs"
        "\<forall>v\<in>set vs. \<not> js_lt (Num m) v"
      using js_Math_max_domain[OF dom] by blast
    have one: "1 \<le> ?S m"
      using softmax_domain_closed(1)[OF below m] .
    have closed: "softmax vs = map (\<lambda>v. Num (term_value m v / ?S m)) vs"
      using softmax_domain_closed(2)[OF below m] .
    have len: "length (softmax vs) = length vs"
      unfolding closed by simp
    have range: "\<forall>p\<in>set (softmax vs). \<exists>q. p = Num q \<and> 0 \<le> q \<and> q \<le> 1"
    proof
      fix p assume "p \<in> set (softmax vs)"
      then obtain v where v: "v \<in> set vs" and p: "p = Num (term_value m v / ?S m)"
        unfolding closed by auto
      have r: "0 \<le> term_value m v"
        using term_value_range m(3) v by blast
      have "term_value m v \<le> ?S m"
        using v m(3) term_value_range by (intro member_le_sum_list_real) auto
      then have "0 \<le> term_value m v / ?S m \<and> term_value m v / ?S m \<le> 1"
        using r one by simp
      then show "\<exists>q. p = Num q \<and> 0 \<le> q \<and> q \<le> 1"
        using p by blast
    qed
    have total: "foldl js_add (Num 0) (softmax vs) = Num 1"
      unfolding closed using one by (rule softmax_domain_sum)
    have shift: "(\<forall>v\<in>set vs. add64 v (Num c) = js_add v (Num c)) \<longrightarrow>
         softmax (map (\<lambda>v. add64 v (Num c)) vs) = softmax vs"
    proof
      assume "\<forall>v\<in>set vs. add64 v (Num c) = js_add v (Num c)"
      then have "map (\<lambda>v. add64 v (Num c)) vs = map (\<lambda>v. js_add v (Num c)) vs"
        by simp
      then show "softmax (map (\<lambda>v. add64 v (Num c)) vs) = softmax vs"
        by (simp only: softmax_shift[OF dom])
    qed
    have mx: "\<exists>m. js_Math_max vs = Num m \<and> Num m \<in> set vs \<and>
           (\<forall>v\<in>set vs. \<not> js_lt (Num m) v) \<and>
           js_exp (js_sub (Num m) (js_Math_max vs)) = Num 1 \<and>
           softmax vs = map (\<lambda>v. Num (term_value m v / (\<Sum>u\<leftarrow>vs. term_value m u))) vs"
      using m closed by (intro exI[of _ m]) simp
    have et: "exp_terms vs = map (\<lambda>v. Num (term_value m v)) vs"
      using exp_terms_domain[OF below m(1,3)] .
    have terms: "\<forall>t\<in>set (exp_terms vs). \<exists>e. t = Num e \<and> 0 \<le> e \<and> e \<le> 1"
      unfolding et using term_value_range m(3) by auto
    have "foldl js_add (Num 0) (exp_terms vs) = Num (?S m)"
      unfolding et by (simp add: foldl_js_add_Num)
    then have sum: "\<exists>s. foldl js_add (Num 0) (exp_terms vs) = Num s \<and> 1 \<le> s"
      using one by blast
    show ?thesis
      using len range total shift mx terms sum by blast
  qed
  have outside: "vs \<noteq> [] \<and> \<not> softmax_domain vs \<longrightarrow> softmax vs = map (\<lambda>_. NaN) vs"
    using softmax_outside by blast
  have guard: "vs \<noteq> [] \<longrightarrow>
      softmax vs = softmax_normalise (exp_terms vs) \<and>
      \<not> js_eq (foldl js_add (Num 0) (exp_terms vs)) (Num 0)"
    using softmax_stable_form total_never_zero by blast
  have real: "xs \<noteq> [] \<and> (\<forall>x\<in>set xs. pow2 (- 1075) \<le> exp (x - Max (set xs))) \<longrightarrow>
      softmax (map Num xs) = map (\<lambda>x. Num (exp x / (\<Sum>u\<leftarrow>xs. exp u))) xs"
    using softmax_real by blast
  have zero: "js_eq (foldl js_add (Num 0) exps) (Num 0) \<longrightarrow>
      softmax_normalise exps = map (\<lambda>_. Num 0) exps"
    by (simp add: softmax_normalise_def Let_def)
  show ?thesis
    using inside outside guard real zero by blast
qed

theorem softmax_properties_witness:
  "softmax [NegInf, Num 0] = [Num 0, Num 1] \<and>
   foldl js_add (Num 0) (softmax [NegInf, Num 0]) = Num 1 \<and>
   softmax [add64 NegInf (Num 5), add64 (Num 0) (Num 5)] = softmax [NegInf, Num 0] \<and>
   js_Math_max [NegInf, Num 0] = Num 0 \<and>
   exp_terms [NegInf, Num 0] = [Num 0, Num 1] \<and>
   softmax [Num (- 2000), Num 0] = [Num 0, Num 1] \<and>
   softmax [NegInf] = [NaN] \<and>
   softmax [Num 1, Num 1] = [Num (1 / 2), Num (1 / 2)] \<and>
   js_eq (foldl js_add (Num 0) [Num 0, Num 0]) (Num 0) \<and>
   softmax_normalise [Num 0, Num 0] = [Num 0, Num 0]"
proof -
  note T = softmax_properties[of "[NegInf, Num 0]" 5 "[1, 1]" "[Num 0, Num 0]"]
  note U = softmax_properties[of "[NegInf]" 5 "[1, 1]" "[Num 0, Num 0]"]
  have dom: "softmax_domain [NegInf, Num 0]"
    by (simp add: softmax_domain_def below_infinity_def)
  note I = T[THEN conjunct1, rule_format, OF dom]
  have five: "add64 (Num 0) (Num 5) = Num 5"
    using dround_int[of 5] by (simp add: add64_def)
  have total: "foldl js_add (Num 0) (softmax [NegInf, Num 0]) = Num 1"
    using I by blast
  have "softmax (map (\<lambda>v. add64 v (Num 5)) [NegInf, Num 0]) = softmax [NegInf, Num 0]"
    using I[THEN conjunct2, THEN conjunct2, THEN conjunct2, THEN conjunct1] five
    by (simp add: add64_def)
  then have shift:
    "softmax [add64 NegInf (Num 5), add64 (Num 0) (Num 5)] = softmax [NegInf, Num 0]"
    by simp
  have mx: "js_Math_max [NegInf, Num 0] = Num 0"
    by (simp add: js_Math_max_def)
  have et: "exp_terms [NegInf, Num 0] = [Num 0, Num 1]"
    by (simp add: exp_terms_def mx js_sub_def)
  have "softmax [NegInf] = map (\<lambda>_. NaN) [NegInf]"
    using U[THEN conjunct2, THEN conjunct1]
    by (simp add: softmax_domain_def below_infinity_def)
  then have out: "softmax [NegInf] = [NaN]" by simp
  have "softmax (map Num [1, 1]) = map (\<lambda>x. Num (exp x / (\<Sum>u\<leftarrow>[1, 1]. exp u))) [1, 1]"
    using T[THEN conjunct2, THEN conjunct2, THEN conjunct2, THEN conjunct1] pow2_bounds(1)
    by simp
  moreover have "exp 1 / (exp 1 + exp 1) = (1 / 2 :: real)"
    by (simp add: field_simps)
  ultimately have half: "softmax [Num 1, Num 1] = [Num (1 / 2), Num (1 / 2)]"
    by simp
  have zero: "js_eq (foldl js_add (Num 0) [Num 0, Num 0]) (Num 0) \<and>
      softmax_normalise [Num 0, Num 0] = [Num 0, Num 0]"
    using T[THEN conjunct2, THEN conjunct2, THEN conjunct2, THEN conjunct2] by simp
  show ?thesis
    using softmax_minus_infinity total shift mx et softmax_underflow out half zero by simp
qed

text \<open>
  The claim as stated fails. On \<open>[Infinity, 0]\<close> the exponentiated terms are \<open>NaN\<close> and \<open>0\<close>,
  the first of which is not equal to zero, and both values returned are \<open>NaN\<close>. And the
  result is not invariant under adding a constant: adding \<open>2\<^sup>5\<^sup>3\<close> to \<open>0\<close> and to \<open>1\<close> gives
  \<open>2\<^sup>5\<^sup>3\<close> twice, on which \<open>softmax\<close> returns one half twice, which is not what it returns
  on \<open>[0, 1]\<close>.
\<close>

theorem softmax_of_infinity_is_NaN:
  "exp_terms [PosInf, Num 0] = [NaN, Num 0] \<and>
   \<not> js_eq NaN (Num 0) \<and>
   softmax [PosInf, Num 0] = [NaN, NaN] \<and>
   softmax_domain [Num 0, Num 1] \<and>
   add64 (Num 0) (Num 9007199254740992) = Num 9007199254740992 \<and>
   add64 (Num 1) (Num 9007199254740992) = Num 9007199254740992 \<and>
   softmax [add64 (Num 0) (Num 9007199254740992), add64 (Num 1) (Num 9007199254740992)] =
     [Num (1 / 2), Num (1 / 2)] \<and>
   softmax [add64 (Num 0) (Num 9007199254740992), add64 (Num 1) (Num 9007199254740992)] \<noteq>
     softmax [Num 0, Num 1]"
proof -
  have et: "exp_terms [PosInf, Num 0] = [NaN, Num 0]"
    by (simp add: exp_terms_def js_Math_max_def js_sub_def)
  have dom: "softmax_domain [Num 0, Num 1]"
    by (simp add: softmax_domain_def below_infinity_def)
  have "1 / (1 + exp 1) \<noteq> (1 / 2 :: real)"
    using exp_gt_one[of "1 :: real"] by (simp add: field_simps)
  then have ne: "[Num (1 / 2), Num (1 / 2)] \<noteq> softmax [Num 0, Num 1]"
    by (simp add: softmax_zero_one)
  show ?thesis
    using et dom softmax_plus_infinity ne
    by (simp add: dround_tie dround_no_tie softmax_equal_pair)
qed


section \<open>Recolouring the scene\<close>

subsection \<open>The greatest magnitude\<close>

lemma js_gt_Num_trans:
  "\<not> js_lt m x \<Longrightarrow> js_lt m y \<Longrightarrow> \<not> js_lt y x"
  by (cases m; cases x; cases y) simp_all

lemma maxAbsValue_fold: "maxAbsValue xs = foldl max_step (Num 0) xs"
  by (simp add: maxAbsValue_def max_step_def[abs_def])

lemma max_step_keeps_bound: "\<not> js_gt y m \<Longrightarrow> \<not> js_gt y (max_step m x)"
  using js_gt_Num_trans[of m y "js_abs x"] by (auto simp: max_step_def Let_def js_gt_def)

lemma foldl_max_step_keeps_bound: "\<not> js_gt y m \<Longrightarrow> \<not> js_gt y (foldl max_step m xs)"
  by (induction xs arbitrary: m) (simp_all add: max_step_keeps_bound)

lemma foldl_max_step_bound: "x \<in> set xs \<Longrightarrow> \<not> js_gt (js_abs x) (foldl max_step m xs)"
proof (induction xs arbitrary: m)
  case Nil
  then show ?case by simp
next
  case (Cons a xs)
  have "\<not> js_gt (js_abs a) (max_step m a)"
    by (simp add: max_step_def Let_def js_gt_def)
  then have "\<not> js_gt (js_abs a) (foldl max_step (max_step m a) xs)"
    by (rule foldl_max_step_keeps_bound)
  then show ?case using Cons by auto
qed

lemma foldl_max_step_attained:
  "foldl max_step m xs = m \<or> (\<exists>x\<in>set xs. foldl max_step m xs = js_abs x)"
proof (induction xs arbitrary: m)
  case Nil
  then show ?case by simp
next
  case (Cons a xs)
  have "max_step m a = m \<or> max_step m a = js_abs a"
    by (simp add: max_step_def Let_def)
  then show ?case using Cons[of "max_step m a"] by auto
qed

lemma maxAbsValue_bound: "x \<in> set xs \<Longrightarrow> \<not> js_gt (js_abs x) (maxAbsValue xs)"
  by (simp add: maxAbsValue_fold foldl_max_step_bound)

lemma maxAbsValue_attained:
  "maxAbsValue xs = Num 0 \<or> (\<exists>x\<in>set xs. maxAbsValue xs = js_abs x)"
  using foldl_max_step_attained[of "Num 0" xs] by (simp add: maxAbsValue_fold)

subsection \<open>Writing colours\<close>

lemma colors_only_refl [simp]: "colors_only m m"
  by (simp add: colors_only_def)

lemma colors_only_trans: "colors_only a b \<Longrightarrow> colors_only b c \<Longrightarrow> colors_only a c"
  by (cases a; cases b; cases c) (simp add: colors_only_def)

lemma colors_only_setColorAt: "colors_only m (setColorAt m i c)"
  by (cases m) (simp add: colors_only_def setColorAt_def)


lemma colors_only_recolor:
  "colors_only m (foldl (\<lambda>m i. setColorAt m i (f i)) m ks)"
proof (induction ks arbitrary: m)
  case Nil
  show ?case by simp
next
  case (Cons i ks)
  show ?case
    using colors_only_trans[OF colors_only_setColorAt Cons.IH] by simp
qed

lemma instanceColor_setColorAt [simp]:
  "instanceColor (setColorAt m i c) = (instanceColor m)[i := c]"
  by (simp add: setColorAt_def)

lemma length_recolor [simp]:
  "length (instanceColor (foldl (\<lambda>m i. setColorAt m i (f i)) m ks)) = length (instanceColor m)"
  using colors_only_recolor[of m f ks] by (simp add: colors_only_def)

lemma recolor_nth:
  assumes "i < length (instanceColor m)"
  shows "instanceColor (foldl (\<lambda>m i. setColorAt m i (f i)) m [0..<n]) ! i =
     (if i < n then f i else instanceColor m ! i)"
  using assms by (induction n) (simp_all add: nth_list_update less_Suc_eq)


lemma applyNodeColors_nth:
  assumes "i < length (instanceColor m)" and "i < length values"
  shows "instanceColor (applyNodeColors m values scale) ! i =
     node_color (values ! i) (safe_scale scale)"
  using assms by (simp add: applyNodeColors_def Let_def recolor_nth)

lemma applyNodeColors_dirty [simp]: "colorNeedsUpdate (applyNodeColors m values scale)"
  by (simp add: applyNodeColors_def Let_def)

lemma contribution_loop_closed:
  "contribution_loop sourceValues cs contributions m =
     (contributions @ map (contribution sourceValues) cs,
      foldl max_step m (map (contribution sourceValues) cs))"
  by (induction cs arbitrary: contributions m) (simp_all add: Let_def max_step_def)

lemma contribution_loop_maxAbsValue:
  "contribution_loop sourceValues cs [] (Num 0) =
     (map (contribution sourceValues) cs, maxAbsValue (map (contribution sourceValues) cs))"
  by (simp add: contribution_loop_closed maxAbsValue_fold)



lemma applyConnectionColors_dirty [simp]:
  "colorNeedsUpdate (group_mesh (applyConnectionColors g sourceValues))"
  by (simp add: applyConnectionColors_def contribution_loop_maxAbsValue Let_def)




lemma safe_scale_truthy: "safe_scale (if js_truthy s then s else Num 1) = safe_scale s"
  by (cases s) (simp_all add: safe_scale_def js_gt_def)

lemma layer_scale_safe:
  "layer_scale actualActivations k =
     (if k = 0 then Num 1 else safe_scale (maxAbsValue (actualActivations ! k)))"
  by (simp add: layer_scale_def safe_scale_def Let_def)

lemma node_scale_layer_scale:
  assumes "k < length actualActivations"
  shows "\<exists>s. node_scale actualActivations k = Inr s \<and>
     safe_scale (if js_truthy s then s else Num 1) = layer_scale actualActivations k"
proof -
  have "safe_scale (Num 1) = Num 1"
    by (simp add: safe_scale_def js_gt_def)
  then show ?thesis
    using assms by (simp add: node_scale_def js_get_def layer_scale_safe safe_scale_truthy)
qed

lemma node_pass_no_error:
  assumes "length displayActivations \<le> length actualActivations"
  shows "snd (node_pass displayActivations actualActivations lms k) = None"
proof (induction lms arbitrary: k)
  case Nil
  show ?case by simp
next
  case (Cons lm lms)
  show ?case
  proof (cases "k < length displayActivations")
    case True
    then obtain s where "node_scale actualActivations k = Inr s"
      using node_scale_layer_scale[of k actualActivations] assms by auto
    then show ?thesis
      using True Cons.IH[of "Suc k"] by (auto simp: js_get_def Let_def split: prod.split)
  next
    case False
    then show ?thesis
      using Cons.IH[of "Suc k"] by (auto simp: js_get_def split: prod.split)
  qed
qed

lemma node_pass_colors:
  assumes "length displayActivations \<le> length actualActivations"
    and "j < length lms" and "k + j < length displayActivations"
    and "i < length (displayActivations ! (k + j))"
    and "i < length (instanceColor (mesh (lms ! j)))"
  shows "instanceColor (mesh (fst (node_pass displayActivations actualActivations lms k) ! j)) ! i =
       node_color (displayActivations ! (k + j) ! i) (layer_scale actualActivations (k + j)) \<and>
     colorNeedsUpdate (mesh (fst (node_pass displayActivations actualActivations lms k) ! j))"
  using assms(2-)
proof (induction lms arbitrary: k j)
  case Nil
  then show ?case by simp
next
  case (Cons lm lms)
  obtain rest e where rest: "node_pass displayActivations actualActivations lms (Suc k) = (rest, e)"
    by (cases "node_pass displayActivations actualActivations lms (Suc k)")
  show ?case
  proof (cases j)
    case 0
    then have k: "k < length displayActivations" using Cons.prems by simp
    then obtain s where s: "node_scale actualActivations k = Inr s"
      and sc: "safe_scale (if js_truthy s then s else Num 1) = layer_scale actualActivations k"
      using node_scale_layer_scale[of k actualActivations] assms(1) by auto
    have "fst (node_pass displayActivations actualActivations (lm # lms) k) ! 0 =
        lm\<lparr> mesh := applyNodeColors (mesh lm) (displayActivations ! k)
                        (if js_truthy s then s else Num 1) \<rparr>"
      using k s rest by (simp add: js_get_def Let_def)
    then show ?thesis
      using 0 Cons.prems sc by (simp add: applyNodeColors_nth)
  next
    case (Suc j')
    have tail: "fst (node_pass displayActivations actualActivations (lm # lms) k) ! Suc j' =
        rest ! j'"
    proof (cases "k < length displayActivations")
      case True
      then obtain s where "node_scale actualActivations k = Inr s"
        using node_scale_layer_scale[of k actualActivations] assms(1) by auto
      then show ?thesis using True rest by (simp add: js_get_def Let_def)
    next
      case False
      then show ?thesis using rest by (simp add: js_get_def)
    qed
    have "instanceColor (mesh (fst (node_pass displayActivations actualActivations lms (Suc k)) ! j')) ! i =
       node_color (displayActivations ! (Suc k + j') ! i) (layer_scale actualActivations (Suc k + j')) \<and>
     colorNeedsUpdate (mesh (fst (node_pass displayActivations actualActivations lms (Suc k)) ! j'))"
      using Cons.prems Suc by (intro Cons.IH) simp_all
    then show ?thesis
      using tail rest Suc by simp
  qed
qed

subsection \<open>The colours of the neurons\<close>

text \<open>
  Claim C6, as the code has it. Let \<open>update\<close> be called with at least as many actual as
  display activation vectors. It returns without an error, and every neuron instance of
  every layer that has display values gets the colour of its display value at the scale of
  its layer. For a layer of index 1 or more the scale is the greatest magnitude of the
  layer's actual activations, or \<open>1\<close> when that magnitude is at or below \<open>10\<^sup>-\<^sup>6\<close>; for
  the input layer (index 0) the scale is \<open>1\<close>, whatever the actual activations. The colour
  is the idle colour when the intensity \<open>min(1, |value| / scale)\<close> is below \<open>0.015\<close>. The
  greatest magnitude bounds the magnitude of every actual activation of the layer and is
  \<open>0\<close> or one of them.
\<close>

theorem node_colors_scaled_per_layer:
  assumes "length displayActivations \<le> length actualActivations"
    and "update displayActivations actualActivations v = (v', err)"
    and "layerIndex < length (layerMeshes v)" and "layerIndex < length displayActivations"
    and "i < length (displayActivations ! layerIndex)"
    and "i < length (instanceColor (mesh (layerMeshes v ! layerIndex)))"
  shows "err = None \<and>
     instanceColor (mesh (layerMeshes v' ! layerIndex)) ! i =
       node_color (displayActivations ! layerIndex ! i)
         (if layerIndex = 0 then Num 1
          else if js_gt (maxAbsValue (actualActivations ! layerIndex)) (Num 0.000001)
               then maxAbsValue (actualActivations ! layerIndex) else Num 1) \<and>
     colorNeedsUpdate (mesh (layerMeshes v' ! layerIndex)) \<and>
     (js_lt (js_min2 (Num 1) (js_div (js_abs (displayActivations ! layerIndex ! i))
                (layer_scale actualActivations layerIndex))) (Num 0.015) \<longrightarrow>
        instanceColor (mesh (layerMeshes v' ! layerIndex)) ! i = idle_color) \<and>
     (\<forall>a\<in>set (actualActivations ! layerIndex).
        \<not> js_gt (js_abs a) (maxAbsValue (actualActivations ! layerIndex))) \<and>
     (maxAbsValue (actualActivations ! layerIndex) = Num 0 \<or>
      (\<exists>a\<in>set (actualActivations ! layerIndex).
         maxAbsValue (actualActivations ! layerIndex) = js_abs a))"
proof -
  let ?np = "node_pass displayActivations actualActivations (layerMeshes v) 0"
  have none: "snd ?np = None"
    by (rule node_pass_no_error[OF assms(1)])
  then have np: "?np = (fst ?np, None)"
    by (metis prod.collapse)
  have v': "layerMeshes v' = fst ?np" and err: "err = None"
    using assms(2) np by (auto simp: update_def split: prod.splits option.splits)
  have col: "instanceColor (mesh (fst ?np ! layerIndex)) ! i =
       node_color (displayActivations ! (0 + layerIndex) ! i)
         (layer_scale actualActivations (0 + layerIndex)) \<and>
     colorNeedsUpdate (mesh (fst ?np ! layerIndex))"
    using assms by (intro node_pass_colors) simp_all
  have idle: "js_lt (node_intensity x s) (Num 0.015) \<longrightarrow> node_color x s = idle_color" for x s
    by (simp add: node_color_def Let_def)
  show ?thesis
    using err v' col idle[of "displayActivations ! layerIndex ! i"
        "layer_scale actualActivations layerIndex"]
      maxAbsValue_bound[of _ "actualActivations ! layerIndex"]
      maxAbsValue_attained[of "actualActivations ! layerIndex"]
    by (simp add: layer_scale_def Let_def node_intensity_def)
qed

lemma update_result:
  "update displayActivations actualActivations v =
     (fst (update displayActivations actualActivations v),
      snd (update displayActivations actualActivations v))"
  by simp

lemma node_color_examples:
  "node_color (Num 1) (Num 1) = (Num 1, Num 0.86, Num 0.46)"
  "node_color (Num 1) (Num 2) = (Num 0.57, Num 0.55, Num 0.37)"
  "node_color (Num 4) (Num 8) = (Num 0.57, Num 0.55, Num 0.37)"
  by (simp_all add: node_color_def node_intensity_def ramp_def idle_color_def js_ge_def js_gt_def)

lemma maxAbsValue_examples:
  "maxAbsValue [Num 2] = Num 2" "maxAbsValue [Num 4, Num (- 8)] = Num 8"
  "maxAbsValue [Num 0] = Num 0"
  by (simp_all add: maxAbsValue_def js_gt_def)

lemma forward_demo:
  "forward (mlp demo_visualizer) [Num 1] =
     Inr \<lparr> normalizedInput = [Num 2], activations = [[Num 2], [Num 0]],
           preActivations = [[Num 0]] \<rparr>"
  by (simp add: demo_visualizer_def zero_layer_def run_simps)

theorem node_colors_scaled_per_layer_witness:
  "snd (update [[Num 1], [Num 4, Num (- 8)]] [[Num 2], [Num 4, Num (- 8)]] demo_visualizer) = None \<and>
   instanceColor (mesh (layerMeshes
       (fst (update [[Num 1], [Num 4, Num (- 8)]] [[Num 2], [Num 4, Num (- 8)]] demo_visualizer))
       ! 1)) ! 0 = (Num 0.57, Num 0.55, Num 0.37) \<and>
   instanceColor (mesh (layerMeshes
       (fst (update [[Num 1], [Num 4, Num (- 8)]] [[Num 2], [Num 4, Num (- 8)]] demo_visualizer))
       ! 0)) ! 0 = (Num 1, Num 0.86, Num 0.46) \<and>
   maxAbsValue [Num 4, Num (- 8)] = Num 8"
proof -
  let ?d = "[[Num 1], [Num 4, Num (- 8)]]" and ?a = "[[Num 2], [Num 4, Num (- 8)]]"
  have len: "length ?d \<le> length ?a" by simp
  have l0: "0 < length (layerMeshes demo_visualizer)" "0 < length ?d" "0 < length (?d ! 0)"
      "0 < length (instanceColor (mesh (layerMeshes demo_visualizer ! 0)))"
    and l1: "1 < length (layerMeshes demo_visualizer)" "1 < length ?d" "0 < length (?d ! 1)"
      "0 < length (instanceColor (mesh (layerMeshes demo_visualizer ! 1)))"
    by (simp_all add: demo_visualizer_def demo_mesh_def)
  note T0 = node_colors_scaled_per_layer[OF len update_result l0]
  note T1 = node_colors_scaled_per_layer[OF len update_result l1]
  show ?thesis
    using T0[THEN conjunct1] T0[THEN conjunct2, THEN conjunct1]
      T1[THEN conjunct2, THEN conjunct1]
    by (simp add: maxAbsValue_examples node_color_examples js_gt_def)
qed

text \<open>
  The claim as stated fails at the input layer. A pixel \<open>1\<close> is normalised to \<open>2\<close> by the
  network of the example scene, so the layer's greatest actual magnitude is \<open>2\<close>; the code
  colours the input neuron at scale \<open>1\<close>, at full intensity, where the claim gives half.
\<close>

theorem input_layer_scale_is_one:
  "forward (mlp demo_visualizer) [Num 1] =
     Inr \<lparr> normalizedInput = [Num 2], activations = [[Num 2], [Num 0]],
           preActivations = [[Num 0]] \<rparr> \<and>
   instanceColor (mesh (layerMeshes
       (fst (update [[Num 1], [Num 0]] [[Num 2], [Num 0]] demo_visualizer)) ! 0)) ! 0 =
     (Num 1, Num 0.86, Num 0.46) \<and>
   claimed_node_color [[Num 1], [Num 0]] [[Num 2], [Num 0]] 0 0 = (Num 0.57, Num 0.55, Num 0.37)"
proof -
  let ?d = "[[Num 1], [Num 0]]" and ?a = "[[Num 2], [Num 0]]"
  have "instanceColor (mesh (fst (node_pass ?d ?a (layerMeshes demo_visualizer) 0) ! 0)) ! 0 =
       node_color (?d ! (0 + 0) ! 0) (layer_scale ?a (0 + 0))"
    using node_pass_colors[of ?d ?a 0 "layerMeshes demo_visualizer" 0 0]
    by (simp add: demo_visualizer_def demo_mesh_def)
  moreover have "layerMeshes (fst (update ?d ?a demo_visualizer)) =
      fst (node_pass ?d ?a (layerMeshes demo_visualizer) 0)"
    by (simp add: update_def split: prod.split option.split)
  moreover have "claimed_node_color ?d ?a 0 0 = (Num 0.57, Num 0.55, Num 0.37)"
    by (simp add: claimed_node_color_def maxAbsValue_examples safe_scale_def js_gt_def
        node_color_examples)
  ultimately show ?thesis
    using forward_demo by (simp add: layer_scale_def node_color_examples)
qed

subsection \<open>What an update may change\<close>


lemma group_kept_refl [simp]: "group_kept g g"
  by (simp add: group_kept_def)






section \<open>Spatial layout\<close>

lemma ceil_sqrt_eq:
  assumes "n \<le> k * k" and "k = 0 \<or> (k - 1) * (k - 1) < n"
  shows "ceil_sqrt n = k"
proof -
  have up: "sqrt (real n) \<le> real k"
  proof (rule real_le_lsqrt)
    have "real n \<le> real (k * k)" using assms(1) by (rule of_nat_mono)
    then show "real n \<le> (real k)\<^sup>2" by (simp add: power2_eq_square)
  qed simp
  have low: "real k - 1 < sqrt (real n)"
  proof (cases "k = 0")
    case True
    then have "real k - 1 < 0" by simp
    also have "0 \<le> sqrt (real n)" by simp
    finally show ?thesis .
  next
    case False
    then have lt: "(k - 1) * (k - 1) < n" using assms(2) by simp
    have "real ((k - 1) * (k - 1)) < real n" using lt by (simp only: of_nat_less_iff)
    then have "(real (k - 1))\<^sup>2 < real n" by (simp add: power2_eq_square)
    then have "real (k - 1) < sqrt (real n)" by (rule real_less_rsqrt)
    then show ?thesis using False by (simp add: of_nat_diff)
  qed
  have "\<lceil>sqrt (real n)\<rceil> = int k"
    by (rule ceiling_unique) (use up low in simp_all)
  then show ?thesis by (simp add: ceil_sqrt_def)
qed

lemma ceil_sqrt_pos: "0 < n \<Longrightarrow> 0 < ceil_sqrt n"
proof -
  assume "0 < n"
  then have "0 < sqrt (real n)" by simp
  then have "0 < \<lceil>sqrt (real n)\<rceil>" by (simp add: ceiling_less_iff[symmetric] less_ceiling_iff)
  then show ?thesis by (simp add: ceil_sqrt_def)
qed

lemma ceil_div_covers:
  assumes "0 < c"
  shows "n \<le> ceil_div n c * c"
proof -
  have "real n / real c \<le> real_of_int \<lceil>real n / real c\<rceil>" by (rule le_of_int_ceiling)
  moreover have "0 \<le> \<lceil>real n / real c\<rceil>"
  proof -
    have "(- 1 :: real) < 0" by simp
    also have "0 \<le> real n / real c" by simp
    finally show ?thesis by (simp only: zero_le_ceiling)
  qed
  ultimately have "real n / real c \<le> real (ceil_div n c)"
    by (simp add: ceil_div_def)
  then have "real n \<le> real (ceil_div n c) * real c"
    using assms by (simp add: field_simps)
  then have "real n \<le> real (ceil_div n c * c)" by simp
  then show ?thesis by (simp only: of_nat_le_iff)
qed

lemma ceil_div_eq:
  assumes "0 < c" and "n \<le> r * c" and "r = 0 \<or> (r - 1) * c < n"
  shows "ceil_div n c = r"
proof -
  have up: "real n / real c \<le> real r"
  proof -
    have "real n \<le> real (r * c)" using assms(2) by (rule of_nat_mono)
    then show ?thesis using assms(1) by (simp add: field_simps)
  qed
  have low: "real r - 1 < real n / real c"
  proof (cases "r = 0")
    case True
    then have "real r - 1 < 0" by simp
    also have "0 \<le> real n / real c" by simp
    finally show ?thesis .
  next
    case False
    then have "(r - 1) * c < n" using assms(3) by simp
    then have "real ((r - 1) * c) < real n" by (simp only: of_nat_less_iff)
    then have "real (r - 1) < real n / real c" using assms(1) by (simp add: field_simps)
    then show ?thesis using False by (simp add: of_nat_diff)
  qed
  have "\<lceil>real n / real c\<rceil> = int r"
    by (rule ceiling_unique) (use up low in simp_all)
  then show ?thesis by (simp add: ceil_div_def)
qed

lemma col_loop_closed:
  "col_loop place cols n c filled ps =
     (filled + min (cols - c) (n - filled),
      ps @ map place [c..<c + min (cols - c) (n - filled)])"
proof (induction place cols n c filled ps rule: col_loop.induct)
  case (1 place cols n c filled ps)
  show ?case
  proof (cases "c < cols \<and> filled < n")
    case True
    then have m: "min (cols - c) (n - filled) = Suc (min (cols - Suc c) (n - Suc filled))"
      by linarith
    let ?m = "min (cols - Suc c) (n - Suc filled)"
    have "c < c + Suc ?m" by simp
    then have "[c..<c + Suc ?m] = c # [Suc c..<c + Suc ?m]"
      by (rule upt_conv_Cons)
    then have u: "[c..<c + Suc ?m] = c # [Suc c..<Suc c + ?m]"
      by simp
    have "col_loop place cols n (Suc c) (Suc filled) (ps @ [place c]) =
        (Suc filled + ?m, (ps @ [place c]) @ map place [Suc c..<Suc c + ?m])"
      using 1 True by simp
    then show ?thesis
      using True unfolding m u by (subst col_loop.simps) simp
  next
    case False
    then have "min (cols - c) (n - filled) = 0" by (auto simp: min_def)
    with False show ?thesis by (subst col_loop.simps) auto
  qed
qed

lemma length_row_loop:
  assumes "length ps = filled" and "filled \<le> n"
  shows "length (row_loop place rows cols n r filled ps) = min n (filled + (rows - r) * cols)"
  using assms
proof (induction place rows cols n r filled ps rule: row_loop.induct)
  case (1 place rows cols n r filled ps)
  show ?case
  proof (cases "r < rows \<and> filled < n")
    case True
    let ?k = "min cols (n - filled)"
    have cl: "col_loop (place r) cols n 0 filled ps =
        (filled + ?k, ps @ map (place r) [0..<?k])"
      by (simp add: col_loop_closed)
    have l: "length (ps @ map (place r) [0..<?k]) = filled + ?k"
      using 1(2) by simp
    have b: "filled + ?k \<le> n"
      using 1(3) by linarith
    have "length (row_loop place rows cols n (Suc r) (filled + ?k) (ps @ map (place r) [0..<?k])) =
        min n (filled + ?k + (rows - Suc r) * cols)"
      by (rule 1(1)[OF True cl[symmetric] l b])
    moreover have "min n (filled + ?k + (rows - Suc r) * cols) =
        min n (filled + (rows - r) * cols)"
    proof -
      have "(rows - r) * cols = cols + (rows - Suc r) * cols"
        using True by (metis Suc_diff_Suc mult_Suc)
      then show ?thesis by (auto simp: min_def)
    qed
    ultimately show ?thesis
      using True cl by (subst row_loop.simps) simp
  next
    case False
    then show ?thesis
      using 1(2,3) by (subst row_loop.simps) (auto simp: min_def)
  qed
qed

lemma input_grid_covers:
  "n \<le> ceil_div n (ceil_sqrt n) * ceil_sqrt n"
proof (cases "n = 0")
  case True
  then show ?thesis by simp
next
  case False
  then show ?thesis by (intro ceil_div_covers ceil_sqrt_pos) simp
qed

text \<open>
  Claim C8. For every visualizer, layer index, neuron count and \<open>layerX\<close> the layout has
  exactly \<open>neuronCount\<close> positions. It is a function of its arguments and of the two
  spacings of the options only: two visualizers with the same input and hidden spacing get
  the same coordinates, whatever their networks (and so their weights), their meshes and
  their other options.
\<close>

theorem layout_length_and_purity:
  "length (computeLayerPositions v layerIndex neuronCount layerX) = neuronCount \<and>
   (inputSpacing (opts v') = inputSpacing (opts v) \<and>
    hiddenSpacing (opts v') = hiddenSpacing (opts v) \<longrightarrow>
      computeLayerPositions v' layerIndex neuronCount layerX =
        computeLayerPositions v layerIndex neuronCount layerX) \<and>
   computeLayerPositions (v\<lparr> mlp := nw \<rparr>) layerIndex neuronCount layerX =
     computeLayerPositions v layerIndex neuronCount layerX"
proof -
  have len: "length (computeLayerPositions v layerIndex neuronCount layerX) = neuronCount"
  proof (cases "layerIndex = 0")
    case True
    have grid: "length (row_loop place rows cols n 0 0 []) = n"
      if "n \<le> rows * cols" for place rows cols n
      using that length_row_loop[of "[]" 0 n place rows cols 0] by simp
    show ?thesis
    proof (cases "neuronCount = 28 * 28")
      case square: True
      have "length (row_loop place 28 28 (28 * 28) 0 0 []) = 28 * 28" for place
        by (rule grid) simp
      then show ?thesis
        using True square by (simp add: computeLayerPositions_def Let_def)
    next
      case False
      then show ?thesis
        using True grid[OF input_grid_covers[of neuronCount]]
        by (simp add: computeLayerPositions_def Let_def)
    qed
  next
    case False
    then show ?thesis by (simp add: computeLayerPositions_def Let_def)
  qed
  then show ?thesis
    by (simp add: computeLayerPositions_def)
qed

theorem layout_length_and_purity_witness:
  "computeLayerPositions demo_visualizer 0 4 0 =
     [(0, 0.16, - 0.16), (0, 0.16, 0.16), (0, - 0.16, - 0.16), (0, - 0.16, 0.16)] \<and>
   computeLayerPositions demo_visualizer 1 3 1 =
     [(1, 0.45, - 0.45), (1, 0.45, 0.45), (1, - 0.45, - 0.45)] \<and>
   length (computeLayerPositions demo_visualizer 0 784 0) = 784 \<and>
   computeLayerPositions
     (demo_visualizer\<lparr> mlp := scenario_net, opts := (opts demo_visualizer)\<lparr> layerSpacing := 9 \<rparr> \<rparr>)
     0 4 0 = computeLayerPositions demo_visualizer 0 4 0"
proof -
  have c4: "ceil_sqrt 4 = 2" and c3: "ceil_sqrt 3 = 2"
    by (rule ceil_sqrt_eq; simp)+
  have d4: "ceil_div 4 2 = 2" and d3: "ceil_div 3 2 = 2"
    by (rule ceil_div_eq; simp)+
  have d3': "ceil_div 3 (Suc (Suc 0)) = 2"
    using d3 by (simp add: numeral_2_eq_2)
  have p0: "computeLayerPositions demo_visualizer 0 4 0 =
     [(0, 0.16, - 0.16), (0, 0.16, 0.16), (0, - 0.16, - 0.16), (0, - 0.16, 0.16)]"
    by (simp add: computeLayerPositions_def demo_visualizer_def c4 d4 row_loop.simps
        col_loop.simps grid_position_def Let_def)
  have p1: "computeLayerPositions demo_visualizer 1 3 1 =
     [(1, 0.45, - 0.45), (1, 0.45, 0.45), (1, - 0.45, - 0.45)]"
    by (simp add: computeLayerPositions_def demo_visualizer_def c3 d3 d3' grid_position_def
        Let_def upt_rec)
  let ?v' = "demo_visualizer\<lparr> mlp := scenario_net,
      opts := (opts demo_visualizer)\<lparr> layerSpacing := 9 \<rparr> \<rparr>"
  have same: "inputSpacing (opts ?v') = inputSpacing (opts demo_visualizer) \<and>
      hiddenSpacing (opts ?v') = hiddenSpacing (opts demo_visualizer)"
    by simp
  show ?thesis
    using layout_length_and_purity[of demo_visualizer 0 784 0 ?v' scenario_net,
        THEN conjunct1]
      layout_length_and_purity[of demo_visualizer 0 4 0 ?v' scenario_net,
        THEN conjunct2, THEN conjunct1] same p0 p1
    by simp
qed

section \<open>The drawing grid\<close>

text \<open>The invariant of a grid in a store: its buffer exists and holds values of \<open>[0, 1]\<close>.\<close>

lemma unit_interval_clamp:
  "unit_interval v \<Longrightarrow> unit_interval (js_min2 (Num 1) (js_max2 (Num 0) (js_add v (Num d))))"
  by (cases v) (simp_all add: unit_interval_def)

lemma clamp_value:
  "js_min2 (Num 1) (js_max2 (Num 0) (js_add (Num x) (Num d))) = Num (min 1 (max 0 (x + d)))"
  by (simp add: min_def max_def)

lemma paintCell_buffer:
  assumes "grid_values g < length h"
  shows "paintCell h g index erase ! grid_values g =
     (let vs = h ! grid_values g;
          nextValue = js_min2 (Num 1) (js_max2 (Num 0)
            (js_add (to_number (js_get vs index)) (if erase then Num (- 0.45) else Num 0.55)))
      in if index < length vs \<and> js_eq nextValue (vs ! index) then vs else vs[index := nextValue])"
  using assms by (simp add: paintCell_def Let_def js_get_def)

lemma paintCell_length [simp]: "length (paintCell h g index erase) = length h"
  by (simp add: paintCell_def Let_def)

lemma paintCell_other:
  "a \<noteq> grid_values g \<Longrightarrow> paintCell h g index erase ! a = h ! a"
  by (simp add: paintCell_def Let_def)

lemma paintCell_unit_interval:
  assumes "grid_values g < length h" and "\<forall>v\<in>set (h ! grid_values g). unit_interval v"
  shows "\<forall>v\<in>set (paintCell h g index erase ! grid_values g). unit_interval v"
proof (cases "index < length (h ! grid_values g)")
  case True
  then have "unit_interval (h ! grid_values g ! index)"
    using assms(2) by simp
  then have "unit_interval (js_min2 (Num 1) (js_max2 (Num 0)
      (js_add (h ! grid_values g ! index) (if erase then Num (- 0.45) else Num 0.55))))"
    using unit_interval_clamp by (cases erase) simp_all
  then show ?thesis
    using assms True
    by (auto simp: paintCell_buffer[OF assms(1)] Let_def js_get_def dest!: set_update_subset_insert[THEN subsetD])
next
  case False
  then show ?thesis
    using assms by (simp add: paintCell_buffer[OF assms(1)] Let_def list_update_beyond)
qed

lemma paintCell_buffer_length:
  "grid_values g < length h \<Longrightarrow>
   length (paintCell h g index erase ! grid_values g) = length (h ! grid_values g)"
  by (simp add: paintCell_buffer Let_def)

lemma grid_step_length: "length h \<le> length (grid_step g h e)"
  by (cases e) (simp_all add: clear_def getPixels_def)

lemma grid_step_unit_interval:
  assumes "grid_values g < length h" and "\<forall>v\<in>set (h ! grid_values g). unit_interval v"
  shows "\<forall>v\<in>set (grid_step g h e ! grid_values g). unit_interval v"
proof (cases e)
  case (Draw index)
  then show ?thesis using paintCell_unit_interval[OF assms] by simp
next
  case (Erase index)
  then show ?thesis using paintCell_unit_interval[OF assms] by simp
next
  case Clear
  then show ?thesis using assms(1) by (simp add: clear_def unit_interval_def)
next
  case (Scribble junk)
  then show ?thesis using assms by (simp add: getPixels_def nth_append)
qed

lemma grid_step_buffer_length:
  assumes "grid_values g < length h"
  shows "length (grid_step g h e ! grid_values g) = length (h ! grid_values g)"
  using assms by (cases e) (simp_all add: paintCell_buffer_length clear_def getPixels_def nth_append)

text \<open>A step changes the grid's buffer by its old contents only.\<close>

lemma grid_step_depends_on_buffer:
  assumes "grid_values g < length h1" and "grid_values g < length h2"
    and "h1 ! grid_values g = h2 ! grid_values g"
  shows "grid_step g h1 e ! grid_values g = grid_step g h2 e ! grid_values g"
  using assms
  by (cases e) (simp_all add: paintCell_buffer clear_def getPixels_def nth_append)

lemma scribble_keeps_buffer:
  assumes "grid_values g < length h"
  shows "grid_step g h (Scribble junk) ! grid_values g = h ! grid_values g"
  using assms by (simp add: getPixels_def nth_append)

lemma grid_run_invariant:
  assumes "grid_values g < length h" and "\<forall>v\<in>set (h ! grid_values g). unit_interval v"
  shows "grid_values g < length (grid_run g h events) \<and>
     (\<forall>v\<in>set (grid_run g h events ! grid_values g). unit_interval v) \<and>
     length (grid_run g h events ! grid_values g) = length (h ! grid_values g)"
  using assms unfolding grid_run_def
proof (induction events arbitrary: h)
  case Nil
  then show ?case by simp
next
  case (Cons e events)
  have "grid_values g < length (grid_step g h e)"
    using Cons.prems(1) grid_step_length[of h g e] by simp
  moreover have "\<forall>v\<in>set (grid_step g h e ! grid_values g). unit_interval v"
    using grid_step_unit_interval[OF Cons.prems] .
  ultimately show ?case
    using Cons.IH[of "grid_step g h e"] grid_step_buffer_length[OF Cons.prems(1), of e]
    by simp
qed

lemma grid_run_ignores_scribbles:
  assumes "grid_values g < length h1" and "grid_values g < length h2"
    and "h1 ! grid_values g = h2 ! grid_values g"
  shows "grid_run g h1 events ! grid_values g =
     grid_run g h2 (filter (\<lambda>e. \<not> is_scribble e) events) ! grid_values g"
  using assms unfolding grid_run_def
proof (induction events arbitrary: h1 h2)
  case Nil
  then show ?case by simp
next
  case (Cons e events)
  have l1: "grid_values g < length (grid_step g h1 e)"
    using Cons.prems(1) grid_step_length[of h1 g e] by simp
  show ?case
  proof (cases "is_scribble e")
    case True
    then obtain junk where e: "e = Scribble junk"
      by (cases e) (simp_all add: is_scribble_def)
    have "grid_step g h1 e ! grid_values g = h2 ! grid_values g"
      using scribble_keeps_buffer[OF Cons.prems(1)] Cons.prems(3) e by simp
    from Cons.IH[OF l1 Cons.prems(2) this] True show ?thesis by simp
  next
    case False
    have l2: "grid_values g < length (grid_step g h2 e)"
      using Cons.prems(2) grid_step_length[of h2 g e] by simp
    from Cons.IH[OF l1 l2 grid_step_depends_on_buffer[OF Cons.prems]] False
    show ?thesis by simp
  qed
qed

text \<open>
  Claim C10. From a new grid, after any sequence of draw, erase and clear steps, and of
  callers overwriting the array that \<open>getPixels\<close> gave them, every value of the pixel
  buffer is a number of \<open>[0, 1]\<close> and the buffer keeps its \<open>rows * cols\<close> entries. The
  buffer is what the same steps give with the callers' writes left out. A paint step at a
  cell holding \<open>x\<close> leaves \<open>min(1, max(0, x + delta))\<close> there, \<open>delta\<close> being \<open>0.55\<close>
  for a draw and \<open>-0.45\<close> for an erase. \<open>getPixels\<close> returns a new array, different from
  the grid's, with the buffer's contents, and no contents written to it changes the buffer.
\<close>

theorem grid_values_stay_in_unit_interval:
  assumes "DrawingGrid_new h0 rows cols = (h, g)"
  shows "(\<forall>v\<in>set (grid_run g h events ! grid_values g). unit_interval v) \<and>
     length (grid_run g h events ! grid_values g) = rows * cols \<and>
     grid_run g h events ! grid_values g =
       grid_run g h (filter (\<lambda>e. \<not> is_scribble e) events) ! grid_values g \<and>
     (\<forall>index x erase. index < rows * cols \<and> grid_run g h events ! grid_values g ! index = Num x
        \<longrightarrow> paintCell (grid_run g h events) g index erase ! grid_values g ! index =
             Num (min 1 (max 0 (x + (if erase then - 0.45 else 0.55))))) \<and>
     (case getPixels (grid_run g h events) g of
        (h', a) \<Rightarrow>
          a \<noteq> grid_values g \<and> length h' = Suc a \<and>
          h' ! a = grid_run g h events ! grid_values g \<and>
          (\<forall>junk. h'[a := junk] ! grid_values g = grid_run g h events ! grid_values g))"
proof -
  have g: "grid_values g = length h0" and h: "h = h0 @ [replicate (rows * cols) (Num 0)]"
    using assms by (auto simp: DrawingGrid_new_def)
  have lt: "grid_values g < length h" and buf: "h ! grid_values g = replicate (rows * cols) (Num 0)"
    using g h by simp_all
  have init: "\<forall>v\<in>set (h ! grid_values g). unit_interval v"
    using buf by (simp add: unit_interval_def)
  let ?h = "grid_run g h events"
  note inv = grid_run_invariant[OF lt init, of events]
  have len: "length (?h ! grid_values g) = rows * cols"
    using inv buf by simp
  have paint: "\<forall>index x erase. index < rows * cols \<and> ?h ! grid_values g ! index = Num x
        \<longrightarrow> paintCell ?h g index erase ! grid_values g ! index =
             Num (min 1 (max 0 (x + (if erase then - 0.45 else 0.55))))"
  proof (intro allI impI)
    fix index x erase
    assume a: "index < rows * cols \<and> ?h ! grid_values g ! index = Num x"
    have c: "js_min2 (Num 1) (js_max2 (Num 0) (js_add (Num x) (if erase then Num (- 0.45) else Num 0.55)))
        = Num (min 1 (max 0 (x + (if erase then - 0.45 else 0.55))))"
      using clamp_value by (cases erase) simp_all
    show "paintCell ?h g index erase ! grid_values g ! index =
             Num (min 1 (max 0 (x + (if erase then - 0.45 else 0.55))))"
    proof (cases "js_eq (Num (min 1 (max 0 (x + (if erase then - 0.45 else 0.55))))) (Num x)")
      case True
      then show ?thesis
        using a len inv c by (simp add: paintCell_buffer Let_def js_get_def)
    next
      case False
      then show ?thesis
        using a len inv c by (simp add: paintCell_buffer Let_def js_get_def)
    qed
  qed
  have pix: "case getPixels ?h g of
        (h', a) \<Rightarrow>
          a \<noteq> grid_values g \<and> length h' = Suc a \<and>
          h' ! a = ?h ! grid_values g \<and>
          (\<forall>junk. h'[a := junk] ! grid_values g = ?h ! grid_values g)"
    using inv by (simp add: getPixels_def nth_append)
  show ?thesis
    using inv len paint pix grid_run_ignores_scribbles[OF lt lt refl, of events] by simp
qed

theorem grid_values_stay_in_unit_interval_witness:
  "DrawingGrid_new [] 1 2 =
     ([[Num 0, Num 0]], \<lparr> grid_rows = 1, grid_cols = 2, grid_values = 0 \<rparr>) \<and>
   grid_run \<lparr> grid_rows = 1, grid_cols = 2, grid_values = 0 \<rparr> [[Num 0, Num 0]]
     [Draw 0, Draw 0, Erase 0, Scribble [Num 5], Draw 7] = [[Num 0.55, Num 0], [Num 5]] \<and>
   grid_run \<lparr> grid_rows = 1, grid_cols = 2, grid_values = 0 \<rparr> [[Num 0, Num 0]]
     [Draw 0, Draw 0, Erase 0, Draw 7] = [[Num 0.55, Num 0]] \<and>
   list_all unit_interval [Num 0.55, Num 0] \<and>
   paintCell [[Num 0.55, Num 0], [Num 5]] \<lparr> grid_rows = 1, grid_cols = 2, grid_values = 0 \<rparr>
     0 False = [[Num 1, Num 0], [Num 5]] \<and>
   getPixels [[Num 0.55, Num 0], [Num 5]] \<lparr> grid_rows = 1, grid_cols = 2, grid_values = 0 \<rparr> =
     ([[Num 0.55, Num 0], [Num 5], [Num 0.55, Num 0]], 2)"
proof -
  let ?g = "\<lparr> grid_rows = 1, grid_cols = 2, grid_values = 0 \<rparr>"
  let ?events = "[Draw 0, Draw 0, Erase 0, Scribble [Num 5], Draw 7]"
  have new: "DrawingGrid_new [] 1 2 = ([[Num 0, Num 0]], ?g)"
    by (simp add: DrawingGrid_new_def numeral_2_eq_2)
  have p1: "paintCell [[Num 0, Num 0]] ?g 0 False = [[Num 0.55, Num 0]]"
    by (simp add: paintCell_def js_get_def Let_def)
  have p2: "paintCell [[Num 0.55, Num 0]] ?g 0 False = [[Num 1, Num 0]]"
    by (simp add: paintCell_def js_get_def Let_def)
  have p3: "paintCell [[Num 1, Num 0]] ?g 0 True = [[Num 0.55, Num 0]]"
    by (simp add: paintCell_def js_get_def Let_def)
  have p4: "paintCell [[Num 0.55, Num 0]] ?g 7 False = [[Num 0.55, Num 0]]"
    by (simp add: paintCell_def js_get_def Let_def)
  have p5: "paintCell [[Num 0.55, Num 0], [Num 5]] ?g 7 False = [[Num 0.55, Num 0], [Num 5]]"
    by (simp add: paintCell_def js_get_def Let_def)
  have p6: "paintCell [[Num 0.55, Num 0], [Num 5]] ?g 0 False = [[Num 1, Num 0], [Num 5]]"
    by (simp add: paintCell_def js_get_def Let_def)
  have sc: "grid_step ?g [[Num 0.55, Num 0]] (Scribble [Num 5]) = [[Num 0.55, Num 0], [Num 5]]"
    by (simp add: getPixels_def)
  have run: "grid_run ?g [[Num 0, Num 0]] ?events = [[Num 0.55, Num 0], [Num 5]]"
    unfolding grid_run_def foldl_Cons foldl_Nil grid_step.simps(1,2) p1 p2 p3 sc p5 ..
  have run': "grid_run ?g [[Num 0, Num 0]] [Draw 0, Draw 0, Erase 0, Draw 7] = [[Num 0.55, Num 0]]"
    unfolding grid_run_def foldl_Cons foldl_Nil grid_step.simps(1,2) p1 p2 p3 p4 ..
  have px: "getPixels [[Num 0.55, Num 0], [Num 5]] ?g =
      ([[Num 0.55, Num 0], [Num 5], [Num 0.55, Num 0]], 2)"
    by (simp add: getPixels_def)
  have ui: "list_all unit_interval [Num 0.55, Num 0]"
    by (simp add: unit_interval_def)
  note T = grid_values_stay_in_unit_interval[OF new, of ?events]
  show ?thesis
    using T[THEN conjunct2, THEN conjunct1] new run run' ui p6 px by simp
qed

end
